theory Spec2Isabelle
  imports Main "HOL-Library.AList"
begin

section \<open>Protocol value objects (shared/types)\<close>

text \<open>
  The builders of \<^verbatim>\<open>shared/types\<close> shape plain JSON objects. Task states are the
  seven strings of \<^verbatim>\<open>TaskState\<close>; a part is tagged by its \<^verbatim>\<open>type\<close> field. The
  payloads of file and data parts are opaque to the task manager and are kept
  as their serialised text. Optional metadata of parts, messages and artifacts
  is never read by the task manager and is left out.
\<close>

datatype task_state =
  Submitted | Working | InputRequired | Completed | Canceled | Failed | Unknown

datatype role = User | Agent

datatype part = TextPart string | FilePart string | DataPart string

record message =
  role :: role
  parts :: "part list"

record task_status =
  state :: task_state
  message :: "message option"
  timestamp :: int

record artifact =
  art_name :: string
  art_description :: "string option"
  art_parts :: "part list"
  art_index :: int
  art_append :: bool
  art_lastChunk :: bool

text \<open>
  A task as \<^verbatim>\<open>createTask(id, status, sessionId, artifacts, history, metadata)\<close>
  builds it. \<^verbatim>\<open>artifacts\<close>, \<^verbatim>\<open>history\<close> and \<^verbatim>\<open>metadata\<close> may be \<^verbatim>\<open>null\<close>.
  Timestamps are the ISO strings of \<^verbatim>\<open>new Date().toISOString()\<close>, which carry
  the clock's milliseconds exactly; they are modelled by that number.
\<close>

record task =
  task_id :: string
  sessionId :: "string option"
  status :: task_status
  artifacts :: "artifact list option"
  history :: "message list option"
  metadata :: "(string \<times> string) list option"

definition createTextPart :: "string \<Rightarrow> part" where
  "createTextPart text = TextPart text"

definition createMessage :: "role \<Rightarrow> part list \<Rightarrow> message" where
  "createMessage r ps = \<lparr>role = r, parts = ps\<rparr>"

definition createTaskStatus :: "task_state \<Rightarrow> message option \<Rightarrow> int \<Rightarrow> task_status" where
  "createTaskStatus st msg now = \<lparr>state = st, message = msg, timestamp = now\<rparr>"

definition types_createTask ::
  "string \<Rightarrow> task_status \<Rightarrow> string option \<Rightarrow> artifact list option \<Rightarrow>
   message list option \<Rightarrow> (string \<times> string) list option \<Rightarrow> task" where
  "types_createTask i st sid arts hist meta =
     \<lparr>task_id = i, sessionId = sid, status = st, artifacts = arts,
      history = hist, metadata = meta\<rparr>"

subsection \<open>Errors\<close>

definition INVALID_PARAMS :: int where "INVALID_PARAMS = - 32602"
definition INTERNAL_ERROR :: int where "INTERNAL_ERROR = - 32603"
definition METHOD_NOT_FOUND :: int where "METHOD_NOT_FOUND = - 32601"
definition TASK_NOT_FOUND :: int where "TASK_NOT_FOUND = - 32001"
definition TASK_NOT_CANCELABLE :: int where "TASK_NOT_CANCELABLE = - 32002"
definition AUTHENTICATION_REQUIRED :: int where "AUTHENTICATION_REQUIRED = - 32007"
definition INVALID_TASK_STATE :: int where "INVALID_TASK_STATE = - 32009"

text \<open>
  What the task manager throws: either an object built by \<^verbatim>\<open>createJsonRpcError\<close>
  (code and message; the \<^verbatim>\<open>data\<close> detail is left out) or a plain JavaScript
  \<^verbatim>\<open>Error\<close> with its message.
\<close>

datatype error = JsonRpcError int string | Error string

fun error_message :: "error \<Rightarrow> string" where
  "error_message (JsonRpcError c m) = m"
| "error_message (Error m) = m"

section \<open>The task manager (server/tasks.js)\<close>

text \<open>
  A streaming connection is an object with \<^verbatim>\<open>sendEvent\<close> and \<^verbatim>\<open>close\<close>; it is
  identified here by a number, and every call the task manager makes on a
  connection is recorded, in the order of the calls, in the one trace
  \<open>calls\<close>. Webhook posts started by \<^verbatim>\<open>sendPushNotification\<close> are recorded in
  \<open>posted\<close>.
\<close>

type_synonym conn = nat

datatype event_type = StatusEvent | ArtifactEvent

datatype payload = StatusData task_status | ArtifactData artifact

record event =
  ev_conn :: conn
  ev_type :: event_type
  ev_data :: payload
  ev_final :: bool

datatype conn_call = SendEvent event | Close conn

record push_config =
  url :: string
  token :: "string option"
  authentication :: "string list option"

record push_post =
  post_url :: string
  post_taskId :: string
  post_status :: task_status
  post_token :: "string option"

text \<open>
  The four \<^verbatim>\<open>Map\<close>s of the constructor. \<open>tasks\<close> is iterated by the maintenance
  sweep, so it keeps the insertion order of a JavaScript \<^verbatim>\<open>Map\<close> as an
  association list: \<open>AList.update\<close> overwrites in place or appends, as
  \<^verbatim>\<open>Map.set\<close> does.
\<close>

record task_manager =
  tasks :: "(string \<times> task) list"
  sessions :: "string \<rightharpoonup> string list"
  pushNotificationConfigs :: "string \<rightharpoonup> push_config"
  streamingConnections :: "string \<rightharpoonup> conn list"
  calls :: "conn_call list"
  posted :: "push_post list"

definition new_TaskManager :: task_manager where
  "new_TaskManager =
     \<lparr>tasks = [], sessions = Map.empty, pushNotificationConfigs = Map.empty,
      streamingConnections = Map.empty, calls = [], posted = []\<rparr>"

definition terminalStates :: "task_state list" where
  "terminalStates = [Completed, Canceled, Failed]"

definition not_found :: error where
  "not_found = JsonRpcError TASK_NOT_FOUND ''Task not found''"

subsection \<open>createTask, getTask\<close>

definition createTask ::
  "string \<Rightarrow> string option \<Rightarrow> message option \<Rightarrow> int \<Rightarrow> task_manager \<Rightarrow>
   (error + task) \<times> task_manager" where
  "createTask i sid msg now s =
     (if map_of (tasks s) i \<noteq> None
      then (Inl (JsonRpcError INVALID_PARAMS ''Task with this ID already exists''), s)
      else
        let st = createTaskStatus Submitted msg now;
            t = types_createTask i st sid (Some []) None (Some []);
            s1 = s\<lparr>tasks := AList.update i t (tasks s)\<rparr>;
            s2 = (case sid of
                    None \<Rightarrow> s1
                  | Some se \<Rightarrow>
                      if se = [] then s1
                      else
                        let ids = (case sessions s1 se of None \<Rightarrow> [] | Some l \<Rightarrow> l)
                        in s1\<lparr>sessions := (sessions s1)(se \<mapsto> ids @ [i])\<rparr>)
        in (Inr t, s2))"

text \<open>
  \<^verbatim>\<open>JSON.parse(JSON.stringify(task))\<close> copies the object; on immutable values the
  copy is the value itself. \<^verbatim>\<open>slice(-n)\<close> keeps the last \<open>n\<close> entries.
\<close>

definition getTask :: "string \<Rightarrow> int \<Rightarrow> task_manager \<Rightarrow> error + task" where
  "getTask i historyLength s =
     (case map_of (tasks s) i of
        None \<Rightarrow> Inl not_found
      | Some t \<Rightarrow>
          (case history t of
             Some h \<Rightarrow>
               if 0 < historyLength
               then Inr (t\<lparr>history := Some (drop (length h - nat historyLength) h)\<rparr>)
               else Inr t
           | None \<Rightarrow> Inr t))"

subsection \<open>Streaming fan-out and push\<close>

text \<open>
  \<^verbatim>\<open>StreamingConnection.sendEvent(eventType, data, isFinal = false)\<close>: a call
  without the third argument sends \<^verbatim>\<open>final: false\<close>.
\<close>

definition sendEvent ::
  "conn \<Rightarrow> event_type \<Rightarrow> payload \<Rightarrow> bool option \<Rightarrow> task_manager \<Rightarrow> task_manager" where
  "sendEvent c ty d isFinal s =
     s\<lparr>calls := calls s @
        [SendEvent
           \<lparr>ev_conn = c, ev_type = ty, ev_data = d,
            ev_final = (case isFinal of None \<Rightarrow> False | Some b \<Rightarrow> b)\<rparr>]\<rparr>"

definition close :: "conn \<Rightarrow> task_manager \<Rightarrow> task_manager" where
  "close c s = s\<lparr>calls := calls s @ [Close c]\<rparr>"

definition notifyStreamingConnections ::
  "string \<Rightarrow> event_type \<Rightarrow> payload \<Rightarrow> task_manager \<Rightarrow> (error + unit) \<times> task_manager" where
  "notifyStreamingConnections i ty d s =
     (case streamingConnections s i of
        None \<Rightarrow> (Inr (), s)
      | Some connections \<Rightarrow>
          (case getTask i 0 s of
             Inl e \<Rightarrow> (Inl e, s)
           | Inr t \<Rightarrow>
               let isTerminal = (state (status t) \<in> set [Completed, Canceled, Failed]);
                   s1 = foldl (\<lambda>a c. sendEvent c ty d (Some isTerminal) a) s connections
               in if isTerminal
                  then (Inr (),
                        (foldl (\<lambda>a c. close c a) s1 connections)
                          \<lparr>streamingConnections := (streamingConnections s1)(i := None)\<rparr>)
                  else (Inr (), s1)))"

text \<open>
  \<^verbatim>\<open>sendPushNotification\<close> is asynchronous, but everything up to the post runs
  at the call: the config lookup, the task snapshot and the request. A missing
  task rejects the promise and posts nothing. The payload's own timestamp and
  the bearer header are not recorded.
\<close>

definition sendPushNotification :: "string \<Rightarrow> task_manager \<Rightarrow> task_manager" where
  "sendPushNotification i s =
     (case pushNotificationConfigs s i of
        None \<Rightarrow> s
      | Some config \<Rightarrow>
          (case getTask i 0 s of
             Inl e \<Rightarrow> s
           | Inr t \<Rightarrow>
               s\<lparr>posted := posted s @
                  [\<lparr>post_url = url config, post_taskId = i, post_status = status t,
                    post_token = token config\<rparr>]\<rparr>))"

subsection \<open>updateTaskStatus, addArtifacts\<close>

definition updateTaskStatus ::
  "string \<Rightarrow> task_status \<Rightarrow> task_manager \<Rightarrow> (error + task) \<times> task_manager" where
  "updateTaskStatus i newStatus s =
     (case map_of (tasks s) i of
        None \<Rightarrow> (Inl not_found, s)
      | Some t \<Rightarrow>
          let t1 = (case message (status t) of
                      None \<Rightarrow> t
                    | Some m \<Rightarrow>
                        t\<lparr>history :=
                            Some ((case history t of None \<Rightarrow> [] | Some h \<Rightarrow> h) @ [m])\<rparr>);
              t2 = t1\<lparr>status := newStatus\<rparr>;
              s1 = s\<lparr>tasks := AList.update i t2 (tasks s)\<rparr>
          in (case notifyStreamingConnections i StatusEvent (StatusData newStatus) s1 of
                (Inl e, s2) \<Rightarrow> (Inl e, s2)
              | (Inr u, s2) \<Rightarrow>
                  (Inr t2,
                   if pushNotificationConfigs s2 i \<noteq> None
                   then sendPushNotification i s2 else s2)))"

fun notify_artifacts ::
  "string \<Rightarrow> artifact list \<Rightarrow> task_manager \<Rightarrow> (error + unit) \<times> task_manager" where
  "notify_artifacts i [] s = (Inr (), s)"
| "notify_artifacts i (a # as) s =
     (case notifyStreamingConnections i ArtifactEvent (ArtifactData a) s of
        (Inl e, s1) \<Rightarrow> (Inl e, s1)
      | (Inr u, s1) \<Rightarrow> notify_artifacts i as s1)"

definition addArtifacts ::
  "string \<Rightarrow> artifact list \<Rightarrow> task_manager \<Rightarrow> (error + task) \<times> task_manager" where
  "addArtifacts i arts s =
     (case map_of (tasks s) i of
        None \<Rightarrow> (Inl not_found, s)
      | Some t \<Rightarrow>
          let t1 = t\<lparr>artifacts :=
                      Some ((case artifacts t of None \<Rightarrow> [] | Some old \<Rightarrow> old) @ arts)\<rparr>;
              s1 = s\<lparr>tasks := AList.update i t1 (tasks s)\<rparr>
          in (case notify_artifacts i arts s1 of
                (Inl e, s2) \<Rightarrow> (Inl e, s2)
              | (Inr u, s2) \<Rightarrow> (Inr t1, s2)))"

subsection \<open>Skill routing\<close>

text \<open>
  \<^verbatim>\<open>toLowerCase\<close> on the ASCII letters and \<^verbatim>\<open>String.includes\<close>. The keywords
  are ASCII, so only the ASCII case mapping matters to the routing.
\<close>

definition toLowerCase :: "string \<Rightarrow> string" where
  "toLowerCase =
     map (\<lambda>c. let n = (of_char c :: nat)
              in if 65 \<le> n \<and> n \<le> 90 then char_of (n + 32) else c)"

fun str_includes :: "string \<Rightarrow> string \<Rightarrow> bool" where
  "str_includes [] sub = (sub = [])"
| "str_includes (c # cs) sub =
     (take (length sub) (c # cs) = sub \<or> str_includes cs sub)"

fun skill_of_parts :: "part list \<Rightarrow> string" where
  "skill_of_parts [] = ''text-analysis''"
| "skill_of_parts (TextPart txt # ps) =
     (let text = toLowerCase txt in
      if str_includes text ''analyze'' \<or> str_includes text ''sentiment''
      then ''text-analysis''
      else if str_includes text ''image'' \<or> str_includes text ''photo''
              \<or> str_includes text ''picture''
      then ''image-processing''
      else if str_includes text ''convert'' \<or> str_includes text ''transform''
              \<or> str_includes text ''csv'' \<or> str_includes text ''json''
      then ''data-transformation''
      else if str_includes text ''batch'' \<or> str_includes text ''pipeline''
              \<or> str_includes text ''orchestrate''
      then ''task-orchestration''
      else skill_of_parts ps)"
| "skill_of_parts (p # ps) = skill_of_parts ps"

text \<open>
  \<^verbatim>\<open>task.metadata?.skill\<close> wins when it is truthy (a non-empty string);
  \<^verbatim>\<open>null\<close> is returned when the status carries no message.
\<close>

definition determineSkill :: "task \<Rightarrow> string option" where
  "determineSkill t =
     (let explicit = (case metadata t of None \<Rightarrow> None | Some m \<Rightarrow> map_of m ''skill'')
      in if explicit \<noteq> None \<and> explicit \<noteq> Some []
         then explicit
         else (case message (status t) of
                 None \<Rightarrow> None
               | Some m \<Rightarrow> Some (skill_of_parts (parts m))))"

subsection \<open>The skill registry (server/skills.js)\<close>

text \<open>
  The registry has four entries; only \<^verbatim>\<open>task-orchestration\<close> has a
  \<^verbatim>\<open>continueOrchestration\<close> method. What a skill computes depends on an external
  language model, so the skills' behaviour is a parameter: for a registered
  \<open>k\<close>, \<open>proc k t\<close> is what \<^verbatim>\<open>skills[k].process(t, taskManager)\<close> settles to on
  the task copy \<open>t\<close>, either rejecting with an error message or resolving with
  \<^verbatim>\<open>{message, artifacts}\<close>; \<open>cont t\<close> is what \<^verbatim>\<open>continueOrchestration\<close> settles
  to, together with the task copy as the skill left it (it assigns
  \<^verbatim>\<open>task.status\<close> on the copy).

  \<^verbatim>\<open>skills\<close> is an object literal, so \<^verbatim>\<open>skills[k]\<close> is also defined (and truthy)
  for the property names it inherits from \<^verbatim>\<open>Object.prototype\<close>; such a value has
  neither a \<^verbatim>\<open>process\<close> nor a \<^verbatim>\<open>continueOrchestration\<close> property, and calling its
  \<^verbatim>\<open>process\<close> throws a \<^verbatim>\<open>TypeError\<close>.
\<close>

definition skill_ids :: "string list" where
  "skill_ids =
     [''text-analysis'', ''image-processing'', ''data-transformation'',
      ''task-orchestration'']"

definition inherited_names :: "string list" where
  "inherited_names =
     [''constructor'', ''__defineGetter__'', ''__defineSetter__'', ''hasOwnProperty'',
      ''__lookupGetter__'', ''__lookupSetter__'', ''isPrototypeOf'',
      ''propertyIsEnumerable'', ''toString'', ''valueOf'', ''__proto__'',
      ''toLocaleString'']"

definition skills_defined :: "string \<Rightarrow> bool" where
  "skills_defined k = (k \<in> set (skill_ids @ inherited_names))"

definition has_continueOrchestration :: "string \<Rightarrow> bool" where
  "has_continueOrchestration k = (k = ''task-orchestration'')"

record skill_result =
  res_message :: "message option"
  res_artifacts :: "artifact list option"

type_synonym skill_process = "string \<Rightarrow> task \<Rightarrow> string + skill_result"

type_synonym skill_continue = "task \<Rightarrow> string + (skill_result \<times> task)"

definition skill_process_call :: "skill_process \<Rightarrow> string \<Rightarrow> task \<Rightarrow> string + skill_result" where
  "skill_process_call proc k t =
     (if k \<in> set skill_ids then proc k t else Inl ''skill.process is not a function'')"

subsection \<open>processTask\<close>

text \<open>
  \<^verbatim>\<open>processTask\<close> suspends at \<^verbatim>\<open>await skill.process(task, this)\<close>; other calls
  can run on the task manager in between. \<open>processTask_start\<close> is the part
  before the suspension (it yields the skill id and the task copy handed to the
  skill), \<open>processTask_apply\<close> the part after it, given what the skill settled
  to. \<open>processTask\<close> is the run with nothing in between.
\<close>

definition processTask_start ::
  "string \<Rightarrow> int \<Rightarrow> task_manager \<Rightarrow> (error + string \<times> task) \<times> task_manager" where
  "processTask_start i now s =
     (case getTask i 0 s of
        Inl e \<Rightarrow> (Inl e, s)
      | Inr t \<Rightarrow>
          (case determineSkill t of
             None \<Rightarrow> (Inl (Error ''Unknown skill: null''), s)
           | Some k \<Rightarrow>
               if \<not> skills_defined k then (Inl (Error (''Unknown skill: '' @ k)), s)
               else
                 (case updateTaskStatus i (createTaskStatus Working None now) s of
                    (Inl e, s1) \<Rightarrow> (Inl e, s1)
                  | (Inr w, s1) \<Rightarrow> (Inr (k, t), s1))))"

definition processTask_catch ::
  "string \<Rightarrow> error \<Rightarrow> int \<Rightarrow> task_manager \<Rightarrow> (error + task) \<times> task_manager" where
  "processTask_catch i err now s =
     (let errorMessage =
            createMessage Agent [createTextPart (''Error: '' @ error_message err)];
          failedStatus = createTaskStatus Failed (Some errorMessage) now
      in (case updateTaskStatus i failedStatus s of
            (Inl e, s1) \<Rightarrow> (Inl e, s1)
          | (Inr w, s1) \<Rightarrow> (Inl err, s1)))"

definition processTask_apply ::
  "string \<Rightarrow> string + skill_result \<Rightarrow> int \<Rightarrow> task_manager \<Rightarrow>
   (error + task) \<times> task_manager" where
  "processTask_apply i outcome now s =
     (case outcome of
        Inl m \<Rightarrow> processTask_catch i (Error m) now s
      | Inr result \<Rightarrow>
          (case (case res_artifacts result of
                   None \<Rightarrow> (Inr (), s)
                 | Some arts \<Rightarrow>
                     if 0 < length arts
                     then (case addArtifacts i arts s of
                             (Inl e, s1) \<Rightarrow> (Inl e, s1)
                           | (Inr w, s1) \<Rightarrow> (Inr (), s1))
                     else (Inr (), s)) of
             (Inl e, s1) \<Rightarrow> processTask_catch i e now s1
           | (Inr u, s1) \<Rightarrow>
               (case updateTaskStatus i
                       (createTaskStatus Completed (res_message result) now) s1 of
                  (Inl e, s2) \<Rightarrow> processTask_catch i e now s2
                | (Inr w, s2) \<Rightarrow>
                    (case getTask i 0 s2 of
                       Inl e \<Rightarrow> processTask_catch i e now s2
                     | Inr r \<Rightarrow> (Inr r, s2)))))"

definition processTask ::
  "skill_process \<Rightarrow> string \<Rightarrow> int \<Rightarrow> int \<Rightarrow> task_manager \<Rightarrow>
   (error + task) \<times> task_manager" where
  "processTask proc i now1 now2 s =
     (case processTask_start i now1 s of
        (Inl e, s1) \<Rightarrow> (Inl e, s1)
      | (Inr (k, t), s1) \<Rightarrow> processTask_apply i (skill_process_call proc k t) now2 s1)"

subsection \<open>continueTask, cancelTask\<close>

text \<open>
  \<^verbatim>\<open>task\<close> in \<^verbatim>\<open>continueTask\<close> is the copy returned by \<^verbatim>\<open>getTask\<close>: the
  \<^verbatim>\<open>push\<close> onto its history and the assignment to \<^verbatim>\<open>task.status.message\<close> change
  the copy (\<open>t\<close> and \<open>t2\<close> below), not the task manager. A skill id that is
  \<^verbatim>\<open>null\<close> or for which \<^verbatim>\<open>skills[skillId]\<close> is undefined makes
  \<^verbatim>\<open>skill.continueOrchestration\<close> a property access on \<^verbatim>\<open>undefined\<close>; for an
  inherited name the property is missing and the restart branch is taken.
\<close>

definition continueTask ::
  "skill_process \<Rightarrow> skill_continue \<Rightarrow> string \<Rightarrow> message \<Rightarrow> int \<Rightarrow> int \<Rightarrow>
   task_manager \<Rightarrow> (error + task) \<times> task_manager" where
  "continueTask proc cont i userMessage now1 now2 s =
     (case getTask i 0 s of
        Inl e \<Rightarrow> (Inl e, s)
      | Inr t0 \<Rightarrow>
          if state (status t0) \<noteq> InputRequired
          then (Inl (JsonRpcError INVALID_TASK_STATE ''Task is not waiting for input''), s)
          else
            let t = t0\<lparr>history :=
                        Some ((case history t0 of None \<Rightarrow> [] | Some h \<Rightarrow> h)
                              @ [userMessage])\<rparr>;
                typeError = Error
                  ''Cannot read properties of undefined (reading 'continueOrchestration')''
            in (case determineSkill t of
                  None \<Rightarrow> (Inl typeError, s)
                | Some k \<Rightarrow>
                    if \<not> skills_defined k then (Inl typeError, s)
                    else if has_continueOrchestration k
                    then
                      (case cont t of
                         Inl m \<Rightarrow> (Inl (Error m), s)
                       | Inr (result, t') \<Rightarrow>
                           (case (case res_artifacts result of
                                    None \<Rightarrow> (Inr (), s)
                                  | Some arts \<Rightarrow>
                                      (case addArtifacts i arts s of
                                         (Inl e, s1) \<Rightarrow> (Inl e, s1)
                                       | (Inr w, s1) \<Rightarrow> (Inr (), s1))) of
                              (Inl e, s1) \<Rightarrow> (Inl e, s1)
                            | (Inr u, s1) \<Rightarrow>
                                (case (case res_message result of
                                         None \<Rightarrow> (Inr (), s1)
                                       | Some m \<Rightarrow>
                                           (case updateTaskStatus i
                                                   (createTaskStatus
                                                      (if state (status t') = InputRequired
                                                       then InputRequired else Completed)
                                                      (Some m) now1) s1 of
                                              (Inl e, s2) \<Rightarrow> (Inl e, s2)
                                            | (Inr w, s2) \<Rightarrow> (Inr (), s2))) of
                                   (Inl e, s2) \<Rightarrow> (Inl e, s2)
                                 | (Inr u2, s2) \<Rightarrow>
                                     (case getTask i 0 s2 of
                                        Inl e \<Rightarrow> (Inl e, s2)
                                      | Inr r \<Rightarrow> (Inr r, s2)))))
                    else
                      let t2 = t\<lparr>status := (status t)\<lparr>message := Some userMessage\<rparr>\<rparr>
                      in processTask proc i now1 now2 s))"

definition cancelTask ::
  "string \<Rightarrow> int \<Rightarrow> task_manager \<Rightarrow> (error + task) \<times> task_manager" where
  "cancelTask i now s =
     (case getTask i 0 s of
        Inl e \<Rightarrow> (Inl e, s)
      | Inr t \<Rightarrow>
          if state (status t) \<in> set terminalStates
          then (Inl (JsonRpcError TASK_NOT_CANCELABLE ''Task cannot be canceled''), s)
          else
            let canceledStatus =
                  createTaskStatus Canceled
                    (Some (createMessage Agent
                             [createTextPart ''Task canceled by user request'']))
                    now
            in (case updateTaskStatus i canceledStatus s of
                  (Inl e, s1) \<Rightarrow> (Inl e, s1)
                | (Inr w, s1) \<Rightarrow>
                    (case getTask i 0 s1 of
                       Inl e \<Rightarrow> (Inl e, s1)
                     | Inr r \<Rightarrow> (Inr r, s1))))"

subsection \<open>Push-notification configs\<close>

text \<open>The result object \<^verbatim>\<open>{id, pushNotificationConfig}\<close> is a pair.\<close>

definition setPushNotificationConfig ::
  "string \<Rightarrow> push_config option \<Rightarrow> task_manager \<Rightarrow>
   (error + string \<times> push_config option) \<times> task_manager" where
  "setPushNotificationConfig i config s =
     (case getTask i 0 s of
        Inl e \<Rightarrow> (Inl e, s)
      | Inr t \<Rightarrow>
          (Inr (i, config),
           (case config of
              Some c \<Rightarrow> s\<lparr>pushNotificationConfigs := (pushNotificationConfigs s)(i \<mapsto> c)\<rparr>
            | None \<Rightarrow> s\<lparr>pushNotificationConfigs := (pushNotificationConfigs s)(i := None)\<rparr>)))"

definition getPushNotificationConfig ::
  "string \<Rightarrow> task_manager \<Rightarrow> (error + string \<times> push_config option) \<times> task_manager" where
  "getPushNotificationConfig i s =
     (case getTask i 0 s of
        Inl e \<Rightarrow> (Inl e, s)
      | Inr t \<Rightarrow> (Inr (i, pushNotificationConfigs s i), s))"

subsection \<open>Streaming connections\<close>

definition addStreamingConnection ::
  "string \<Rightarrow> conn \<Rightarrow> task_manager \<Rightarrow> (error + unit) \<times> task_manager" where
  "addStreamingConnection i c s =
     (let cs = (case streamingConnections s i of None \<Rightarrow> [] | Some l \<Rightarrow> l);
          s1 = s\<lparr>streamingConnections := (streamingConnections s)(i \<mapsto> cs @ [c])\<rparr>
      in (case getTask i 0 s1 of
            Inl e \<Rightarrow> (Inl e, s1)
          | Inr t \<Rightarrow>
              let s2 = sendEvent c StatusEvent (StatusData (status t)) (Some False) s1
              in (Inr (),
                  (case artifacts t of
                     None \<Rightarrow> s2
                   | Some arts \<Rightarrow>
                       foldl (\<lambda>a x. sendEvent c ArtifactEvent (ArtifactData x) None a)
                         s2 arts))))"

definition removeStreamingConnection :: "string \<Rightarrow> conn \<Rightarrow> task_manager \<Rightarrow> task_manager" where
  "removeStreamingConnection i c s =
     (case streamingConnections s i of
        None \<Rightarrow> s
      | Some connections \<Rightarrow>
          let cs = remove1 c connections
          in if length cs = 0
             then s\<lparr>streamingConnections := (streamingConnections s)(i := None)\<rparr>
             else s\<lparr>streamingConnections := (streamingConnections s)(i \<mapsto> cs)\<rparr>)"

text \<open>
  The dispatcher's \<^verbatim>\<open>tasks/resubscribe\<close> (server.js): the id is required, the
  task must exist, then a fresh connection is attached.
\<close>

definition handleTasksResubscribe ::
  "string \<Rightarrow> conn \<Rightarrow> task_manager \<Rightarrow> (error + unit) \<times> task_manager" where
  "handleTasksResubscribe i c s =
     (if i = []
      then (Inl (JsonRpcError INVALID_PARAMS ''Missing required parameter: id''), s)
      else (case getTask i 0 s of
              Inl e \<Rightarrow> (Inl e, s)
            | Inr t \<Rightarrow> addStreamingConnection i c s))"

subsection \<open>The maintenance sweep\<close>

text \<open>
  The \<^verbatim>\<open>for ... of this.tasks.entries()\<close> loop. Deleting the entry being visited
  leaves the entries still to be visited as they are, so the loop runs over the
  entries the map had at the start.
\<close>

fun cleanup_loop ::
  "(string \<times> task) list \<Rightarrow> int \<Rightarrow> int \<Rightarrow> task_manager \<Rightarrow> task_manager" where
  "cleanup_loop [] maxAge now s = s"
| "cleanup_loop ((taskId, t) # rest) maxAge now s =
     (let taskTime = timestamp (status t);
          age = now - taskTime
      in if age > maxAge \<and> state (status t) \<in> set [Completed, Failed, Canceled]
         then cleanup_loop rest maxAge now
                (s\<lparr>tasks := AList.delete taskId (tasks s),
                   pushNotificationConfigs := (pushNotificationConfigs s)(taskId := None)\<rparr>)
         else cleanup_loop rest maxAge now s)"

definition cleanupExpiredTasks :: "int \<Rightarrow> int \<Rightarrow> task_manager \<Rightarrow> task_manager" where
  "cleanupExpiredTasks maxAge now s = cleanup_loop (tasks s) maxAge now s"

section \<open>Notions used in the statements\<close>

text \<open>
  What \<open>updateTaskStatus\<close> does to the stored task: the outgoing status message,
  if there is one, goes to the end of the history, then the new status is
  installed.
\<close>

definition archive :: "task \<Rightarrow> task_status \<Rightarrow> task" where
  "archive t newStatus =
     (case message (status t) of
        None \<Rightarrow> t
      | Some m \<Rightarrow> t\<lparr>history := Some ((case history t of None \<Rightarrow> [] | Some h \<Rightarrow> h) @ [m])\<rparr>)
     \<lparr>status := newStatus\<rparr>"

text \<open>The history as a list, an absent (\<^verbatim>\<open>null\<close>) history read as empty.\<close>

definition history_list :: "task \<Rightarrow> message list" where
  "history_list t = (case history t of None \<Rightarrow> [] | Some h \<Rightarrow> h)"

text \<open>The messages carried by a list of statuses, in order, skipping \<^verbatim>\<open>null\<close>.\<close>

fun status_messages :: "task_status list \<Rightarrow> message list" where
  "status_messages [] = []"
| "status_messages (st # sts) =
     (case message st of None \<Rightarrow> [] | Some m \<Rightarrow> [m]) @ status_messages sts"

text \<open>A sequence of \<open>updateTaskStatus\<close> calls on one task, results discarded.\<close>

fun updateStatus_calls :: "string \<Rightarrow> task_status list \<Rightarrow> task_manager \<Rightarrow> task_manager" where
  "updateStatus_calls i [] s = s"
| "updateStatus_calls i (st # sts) s =
     updateStatus_calls i sts (snd (updateTaskStatus i st s))"

text \<open>
  Readings of the trace of connection calls: the events sent, the connections
  closed, the calls made on one connection, and the events tagged final that
  one connection has received.
\<close>

fun sent_of :: "conn_call list \<Rightarrow> event list" where
  "sent_of [] = []"
| "sent_of (SendEvent e # xs) = e # sent_of xs"
| "sent_of (Close c # xs) = sent_of xs"

fun closed_of :: "conn_call list \<Rightarrow> conn list" where
  "closed_of [] = []"
| "closed_of (SendEvent e # xs) = closed_of xs"
| "closed_of (Close c # xs) = c # closed_of xs"

definition sent :: "task_manager \<Rightarrow> event list" where
  "sent s = sent_of (calls s)"

definition closed :: "task_manager \<Rightarrow> conn list" where
  "closed s = closed_of (calls s)"

fun conn_of :: "conn_call \<Rightarrow> conn" where
  "conn_of (SendEvent e) = ev_conn e"
| "conn_of (Close c) = c"

definition calls_on :: "conn \<Rightarrow> task_manager \<Rightarrow> conn_call list" where
  "calls_on c s = filter (\<lambda>x. conn_of x = c) (calls s)"

definition final_events :: "conn \<Rightarrow> task_manager \<Rightarrow> event list" where
  "final_events c s = filter (\<lambda>e. ev_conn e = c \<and> ev_final e) (sent s)"

text \<open>The status event tagged final, as sent to one connection.\<close>

definition final_status_event :: "conn \<Rightarrow> task_status \<Rightarrow> event" where
  "final_status_event c st =
     \<lparr>ev_conn = c, ev_type = StatusEvent, ev_data = StatusData st, ev_final = True\<rparr>"

text \<open>
  The registry holds live subscriptions: no connection is registered twice,
  under one task or under two, and a registered connection has received no
  final event and has not been closed. A connection is fresh when the task
  manager has not seen it yet.
\<close>

definition live_registry :: "task_manager \<Rightarrow> bool" where
  "live_registry s =
     (\<forall>i cs. streamingConnections s i = Some cs \<longrightarrow>
        distinct cs \<and>
        (\<forall>c \<in> set cs. final_events c s = [] \<and> c \<notin> set (closed s) \<and>
           (\<forall>j cs'. streamingConnections s j = Some cs' \<longrightarrow> c \<in> set cs' \<longrightarrow> j = i)))"

definition fresh_conn :: "conn \<Rightarrow> task_manager \<Rightarrow> bool" where
  "fresh_conn c s =
     (calls_on c s = [] \<and>
      (\<forall>j cs. streamingConnections s j = Some cs \<longrightarrow> c \<notin> set cs))"

definition stored :: "string \<Rightarrow> task_manager \<Rightarrow> task option" where
  "stored i s = map_of (tasks s) i"

definition state_of :: "string \<Rightarrow> task_manager \<Rightarrow> task_state option" where
  "state_of i s = map_option (\<lambda>t. state (status t)) (map_of (tasks s) i)"

text \<open>
  The error taxonomy of the specification, and the entry each thrown error
  falls under: the \<^verbatim>\<open>ErrorCodes\<close> table has one code per entry except
  \<open>AlreadyExists\<close>, for which it has none; a plain \<^verbatim>\<open>Error\<close> is wrapped by
  \<^verbatim>\<open>handleJsonRpcError\<close> with \<^verbatim>\<open>INTERNAL_ERROR\<close>.
\<close>

datatype error_kind =
  AlreadyExists | NotFound | InvalidParams | InvalidTaskState | NotCancelable
  | MethodNotFound | AuthenticationRequired | Internal

fun error_kind_of :: "error \<Rightarrow> error_kind option" where
  "error_kind_of (JsonRpcError c m) =
     (if c = INVALID_PARAMS then Some InvalidParams
      else if c = TASK_NOT_FOUND then Some NotFound
      else if c = TASK_NOT_CANCELABLE then Some NotCancelable
      else if c = INVALID_TASK_STATE then Some InvalidTaskState
      else if c = METHOD_NOT_FOUND then Some MethodNotFound
      else if c = AUTHENTICATION_REQUIRED then Some AuthenticationRequired
      else if c = INTERNAL_ERROR then Some Internal
      else None)"
| "error_kind_of (Error m) = Some Internal"

subsection \<open>Concrete runs\<close>

definition user_request :: message where
  "user_request = createMessage User [createTextPart ''Please analyze this text'']"

definition agent_reply :: message where
  "agent_reply = createMessage Agent [createTextPart ''Text analysis completed'']"

definition agent_question :: message where
  "agent_question = createMessage Agent [createTextPart ''Which language is it?'']"

definition user_answer :: message where
  "user_answer = createMessage User [createTextPart ''It is French'']"

definition report :: artifact where
  "report =
     \<lparr>art_name = ''analysis-summary.txt'', art_description = None,
      art_parts = [TextPart ''positive''], art_index = 0, art_append = False,
      art_lastChunk = False\<rparr>"

definition skill_done :: skill_result where
  "skill_done = \<lparr>res_message = Some agent_reply, res_artifacts = Some [report]\<rparr>"

text \<open>A task manager holding the one task \<^verbatim>\<open>t1\<close>, created at time 100.\<close>

definition submitted_t1 :: task_manager where
  "submitted_t1 = snd (createTask ''t1'' None (Some user_request) 100 new_TaskManager)"

text \<open>The same with two streaming connections, 1 and 2, attached.\<close>

definition streamed_t1 :: task_manager where
  "streamed_t1 =
     snd (addStreamingConnection ''t1'' 2
            (snd (addStreamingConnection ''t1'' 1 submitted_t1)))"

text \<open>\<^verbatim>\<open>t1\<close> taken up by \<open>processTask\<close> at time 200, the skill still running.\<close>

definition working_t1 :: task_manager where
  "working_t1 = snd (processTask_start ''t1'' 200 submitted_t1)"

text \<open>\<^verbatim>\<open>t1\<close> canceled at time 300 while the skill is running.\<close>

definition canceled_t1 :: task_manager where
  "canceled_t1 = snd (cancelTask ''t1'' 300 working_t1)"

text \<open>\<^verbatim>\<open>t1\<close> waiting for input since time 300.\<close>

definition waiting_t1 :: task_manager where
  "waiting_t1 =
     snd (updateTaskStatus ''t1''
            (createTaskStatus InputRequired (Some agent_question) 300) working_t1)"

text \<open>A skill that answers with the very message it was triggered by.\<close>

definition echo_skill :: skill_process where
  "echo_skill k t = Inr \<lparr>res_message = message (status t), res_artifacts = None\<rparr>"

definition no_continue :: skill_continue where
  "no_continue t = Inl ''No orchestration state found''"

text \<open>What \<open>addArtifacts\<close> does to the stored task.\<close>

definition with_artifacts :: "task \<Rightarrow> artifact list \<Rightarrow> task" where
  "with_artifacts t arts =
     t\<lparr>artifacts := Some ((case artifacts t of None \<Rightarrow> [] | Some old \<Rightarrow> old) @ arts)\<rparr>"

text \<open>The condition under which the maintenance sweep deletes an entry.\<close>

definition expired :: "int \<Rightarrow> int \<Rightarrow> task \<Rightarrow> bool" where
  "expired maxAge now t =
     (now - timestamp (status t) > maxAge \<and> state (status t) \<in> set [Completed, Failed, Canceled])"

text \<open>The task \<^verbatim>\<open>t1\<close> as created, and as canceled at time 300.\<close>

definition submitted_task :: task where
  "submitted_task =
     \<lparr>task_id = ''t1'', sessionId = None,
      status = \<lparr>state = Submitted, message = Some user_request, timestamp = 100\<rparr>,
      artifacts = Some [], history = None, metadata = Some []\<rparr>"

definition canceled_task :: task where
  "canceled_task =
     \<lparr>task_id = ''t1'', sessionId = None,
      status = \<lparr>state = Canceled,
                message = Some \<lparr>role = Agent,
                                parts = [TextPart ''Task canceled by user request'']\<rparr>,
                timestamp = 300\<rparr>,
      artifacts = Some [], history = Some [user_request], metadata = Some []\<rparr>"

text \<open>Statuses as \<open>processTask\<close> builds them.\<close>

definition working_status :: task_status where
  "working_status = createTaskStatus Working None 200"

definition completed_status :: task_status where
  "completed_status = createTaskStatus Completed (Some agent_reply) 400"

text \<open>A webhook target.\<close>

definition hook :: push_config where
  "hook = \<lparr>url = ''https://client.example/hook'', token = Some ''secret'',
           authentication = None\<rparr>"

text \<open>
  Three tasks: \<^verbatim>\<open>a\<close> completed at time 50 with a push config, \<^verbatim>\<open>b\<close>
  submitted at time 10, \<^verbatim>\<open>c\<close> failed at time 900.
\<close>

definition three_tasks :: task_manager where
  "three_tasks =
     snd (updateTaskStatus ''c'' (createTaskStatus Failed None 900)
     (snd (createTask ''c'' None (Some user_request) 10
     (snd (createTask ''b'' None (Some user_request) 10
     (snd (setPushNotificationConfig ''a'' (Some hook)
     (snd (updateTaskStatus ''a'' (createTaskStatus Completed (Some agent_reply) 50)
     (snd (createTask ''a'' None (Some user_request) 10 new_TaskManager)))))))))))"

text \<open>The task \<^verbatim>\<open>t1\<close> completed at time 400 by a skill that produced one artifact.\<close>

definition completed_t1 :: task_manager where
  "completed_t1 = snd (processTask_apply ''t1'' (Inr skill_done) 400 working_t1)"

definition completed_task :: task where
  "completed_task =
     \<lparr>task_id = ''t1'', sessionId = None,
      status = \<lparr>state = Completed, message = Some agent_reply, timestamp = 400\<rparr>,
      artifacts = Some [report], history = Some [user_request], metadata = Some []\<rparr>"

text \<open>The stored task after \<open>processTask_apply\<close> has applied a successful result.\<close>

definition applied :: "task \<Rightarrow> skill_result \<Rightarrow> int \<Rightarrow> task" where
  "applied t result now =
     archive
       (case res_artifacts result of
          None \<Rightarrow> t
        | Some arts \<Rightarrow> if 0 < length arts then with_artifacts t arts else t)
       (createTaskStatus Completed (res_message result) now)"

text \<open>
  A skill that resolves with a question to the user and no artifacts, as
  \<^verbatim>\<open>requestUserInput\<close> of the orchestration skill does.
\<close>

definition asking_skill :: skill_process where
  "asking_skill k t = Inr \<lparr>res_message = Some agent_question, res_artifacts = Some []\<rparr>"

section \<open>Auxiliary facts\<close>

lemma getTask_0:
  "getTask i 0 s = (case map_of (tasks s) i of None \<Rightarrow> Inl not_found | Some t \<Rightarrow> Inr t)"
  by (simp add: getTask_def split: option.splits)

lemma sent_of_append [simp]: "sent_of (xs @ ys) = sent_of xs @ sent_of ys"
  by (induction xs rule: sent_of.induct) simp_all

lemma closed_of_append [simp]: "closed_of (xs @ ys) = closed_of xs @ closed_of ys"
  by (induction xs rule: closed_of.induct) simp_all

lemma sent_of_sends [simp]: "sent_of (map (\<lambda>c. SendEvent (f c)) cs) = map f cs"
  by (induction cs) simp_all

lemma closed_of_sends [simp]: "closed_of (map (\<lambda>c. SendEvent (f c)) cs) = []"
  by (induction cs) simp_all

lemma sent_of_closes [simp]: "sent_of (map Close cs) = []"
  by (induction cs) simp_all

lemma closed_of_closes [simp]: "closed_of (map Close cs) = cs"
  by (induction cs) simp_all

lemma foldl_sendEvent:
  "foldl (\<lambda>a c. sendEvent c ty d f a) s cs =
     s\<lparr>calls := calls s @
        map (\<lambda>c. SendEvent \<lparr>ev_conn = c, ev_type = ty, ev_data = d,
          ev_final = (case f of None \<Rightarrow> False | Some b \<Rightarrow> b)\<rparr>) cs\<rparr>"
  by (induction cs arbitrary: s) (simp_all add: sendEvent_def)

lemma foldl_close:
  "foldl (\<lambda>a c. close c a) s cs = s\<lparr>calls := calls s @ map Close cs\<rparr>"
  by (induction cs arbitrary: s) (simp_all add: close_def)

lemma filter_only: "distinct cs \<Longrightarrow> c \<in> set cs \<Longrightarrow> filter (\<lambda>x. x = c) cs = [c]"
proof (induction cs)
  case Nil
  then show ?case by simp
next
  case (Cons a cs)
  show ?case
  proof (cases "a = c")
    case True
    then have "c \<notin> set cs" using Cons.prems(1) by simp
    then have "filter (\<lambda>x. x = c) cs = []" by (auto simp add: filter_empty_conv)
    then show ?thesis using True by simp
  next
    case False
    then show ?thesis using Cons by simp
  qed
qed

lemma notify_no_connections:
  "streamingConnections s i = None \<Longrightarrow> notifyStreamingConnections i ty d s = (Inr (), s)"
  by (simp add: notifyStreamingConnections_def)

lemma notify_connections:
  "streamingConnections s i = Some cs \<Longrightarrow> map_of (tasks s) i = Some t \<Longrightarrow>
   notifyStreamingConnections i ty d s =
     (Inr (),
      if state (status t) \<in> set terminalStates
      then s\<lparr>calls := calls s @
               map (\<lambda>c. SendEvent
                      \<lparr>ev_conn = c, ev_type = ty, ev_data = d, ev_final = True\<rparr>) cs @
               map Close cs,
             streamingConnections := (streamingConnections s)(i := None)\<rparr>
      else s\<lparr>calls := calls s @
               map (\<lambda>c. SendEvent
                      \<lparr>ev_conn = c, ev_type = ty, ev_data = d, ev_final = False\<rparr>) cs\<rparr>)"
  by (simp add: notifyStreamingConnections_def getTask_0 foldl_sendEvent foldl_close
      terminalStates_def Let_def)

lemma notify_tasks [simp]: "tasks (snd (notifyStreamingConnections i ty d s)) = tasks s"
  by (simp add: notifyStreamingConnections_def getTask_0 foldl_sendEvent foldl_close Let_def
      split: option.splits)

lemma notify_configs [simp]:
  "pushNotificationConfigs (snd (notifyStreamingConnections i ty d s)) =
   pushNotificationConfigs s"
  by (simp add: notifyStreamingConnections_def getTask_0 foldl_sendEvent foldl_close Let_def
      split: option.splits)

lemma notify_sessions [simp]:
  "sessions (snd (notifyStreamingConnections i ty d s)) = sessions s"
  by (simp add: notifyStreamingConnections_def getTask_0 foldl_sendEvent foldl_close Let_def
      split: option.splits)

lemma notify_ok:
  "map_of (tasks s) i \<noteq> None \<Longrightarrow> fst (notifyStreamingConnections i ty d s) = Inr ()"
  by (auto simp add: notifyStreamingConnections_def getTask_0 Let_def split: option.splits)

lemma push_tasks [simp]: "tasks (sendPushNotification i s) = tasks s"
  by (simp add: sendPushNotification_def getTask_0 split: option.splits)

lemma push_configs [simp]:
  "pushNotificationConfigs (sendPushNotification i s) = pushNotificationConfigs s"
  by (simp add: sendPushNotification_def getTask_0 split: option.splits)

lemma push_calls [simp]: "calls (sendPushNotification i s) = calls s"
  by (simp add: sendPushNotification_def getTask_0 split: option.splits)

lemma push_conns [simp]:
  "streamingConnections (sendPushNotification i s) = streamingConnections s"
  by (simp add: sendPushNotification_def getTask_0 split: option.splits)

lemma push_sessions [simp]: "sessions (sendPushNotification i s) = sessions s"
  by (simp add: sendPushNotification_def getTask_0 split: option.splits)

lemma updateTaskStatus_missing:
  "map_of (tasks s) i = None \<Longrightarrow> updateTaskStatus i st s = (Inl not_found, s)"
  by (simp add: updateTaskStatus_def)

lemma updateTaskStatus_existing:
  assumes "map_of (tasks s) i = Some t"
  shows "updateTaskStatus i st s =
     (Inr (archive t st),
      (let s2 = snd (notifyStreamingConnections i StatusEvent (StatusData st)
                  (s\<lparr>tasks := AList.update i (archive t st) (tasks s)\<rparr>))
       in if pushNotificationConfigs s i \<noteq> None then sendPushNotification i s2 else s2))"
proof -
  let ?s1 = "s\<lparr>tasks := AList.update i (archive t st) (tasks s)\<rparr>"
  let ?n = "notifyStreamingConnections i StatusEvent (StatusData st) ?s1"
  have "map_of (tasks ?s1) i \<noteq> None" by (simp add: update_conv')
  then have "fst ?n = Inr ()" by (rule notify_ok)
  then obtain s2 where n: "?n = (Inr (), s2)" by (cases ?n) auto
  have c: "pushNotificationConfigs s2 = pushNotificationConfigs s"
    using notify_configs[of i StatusEvent "StatusData st" ?s1] n by simp
  have "updateTaskStatus i st s =
     (case ?n of (Inl e, s2) \<Rightarrow> (Inl e, s2)
      | (Inr u, s2) \<Rightarrow> (Inr (archive t st),
           if pushNotificationConfigs s2 i \<noteq> None then sendPushNotification i s2 else s2))"
    using assms unfolding updateTaskStatus_def archive_def Let_def by simp
  then show ?thesis using n c by (simp add: Let_def)
qed

lemma updateTaskStatus_tasks:
  "map_of (tasks s) i = Some t \<Longrightarrow>
   tasks (snd (updateTaskStatus i st s)) = AList.update i (archive t st) (tasks s)"
  using notify_tasks[of i StatusEvent "StatusData st"
      "s\<lparr>tasks := AList.update i (archive t st) (tasks s)\<rparr>"]
  by (simp add: updateTaskStatus_existing Let_def)

lemma updateTaskStatus_configs [simp]:
  "pushNotificationConfigs (snd (updateTaskStatus i st s)) = pushNotificationConfigs s"
proof (cases "map_of (tasks s) i")
  case None
  then show ?thesis by (simp add: updateTaskStatus_missing)
next
  case (Some t)
  then show ?thesis by (simp add: updateTaskStatus_existing Let_def)
qed

lemma updateTaskStatus_lookup:
  "map_of (tasks s) i = Some t \<Longrightarrow>
   map_of (tasks (snd (updateTaskStatus i st s))) = (map_of (tasks s))(i \<mapsto> archive t st)"
  by (simp add: updateTaskStatus_tasks update_conv')

lemma notify_artifacts_tasks [simp]: "tasks (snd (notify_artifacts i as s)) = tasks s"
proof (induction as arbitrary: s)
  case Nil
  then show ?case by simp
next
  case (Cons a as)
  obtain r s1 where n: "notifyStreamingConnections i ArtifactEvent (ArtifactData a) s = (r, s1)"
    by (cases "notifyStreamingConnections i ArtifactEvent (ArtifactData a) s")
  have "tasks s1 = tasks s"
    using notify_tasks[of i ArtifactEvent "ArtifactData a" s] n by simp
  then show ?case using n Cons.IH[of s1] by (cases r) simp_all
qed

lemma notify_artifacts_configs [simp]:
  "pushNotificationConfigs (snd (notify_artifacts i as s)) = pushNotificationConfigs s"
proof (induction as arbitrary: s)
  case Nil
  then show ?case by simp
next
  case (Cons a as)
  obtain r s1 where n: "notifyStreamingConnections i ArtifactEvent (ArtifactData a) s = (r, s1)"
    by (cases "notifyStreamingConnections i ArtifactEvent (ArtifactData a) s")
  have "pushNotificationConfigs s1 = pushNotificationConfigs s"
    using notify_configs[of i ArtifactEvent "ArtifactData a" s] n by simp
  then show ?case using n Cons.IH[of s1] by (cases r) simp_all
qed

lemma notify_artifacts_ok:
  "map_of (tasks s) i \<noteq> None \<Longrightarrow> fst (notify_artifacts i as s) = Inr ()"
proof (induction as arbitrary: s)
  case Nil
  then show ?case by simp
next
  case (Cons a as)
  obtain r s1 where n: "notifyStreamingConnections i ArtifactEvent (ArtifactData a) s = (r, s1)"
    by (cases "notifyStreamingConnections i ArtifactEvent (ArtifactData a) s")
  have t: "tasks s1 = tasks s"
    using notify_tasks[of i ArtifactEvent "ArtifactData a" s] n by simp
  have "r = Inr ()" using notify_ok[OF Cons.prems, of ArtifactEvent "ArtifactData a"] n by simp
  then show ?case using n Cons.IH[of s1] Cons.prems t by simp
qed

lemma addArtifacts_existing:
  assumes "map_of (tasks s) i = Some t"
  shows "fst (addArtifacts i arts s) = Inr (with_artifacts t arts)"
    and "tasks (snd (addArtifacts i arts s)) = AList.update i (with_artifacts t arts) (tasks s)"
    and "pushNotificationConfigs (snd (addArtifacts i arts s)) = pushNotificationConfigs s"
proof -
  let ?s1 = "s\<lparr>tasks := AList.update i (with_artifacts t arts) (tasks s)\<rparr>"
  have "map_of (tasks ?s1) i \<noteq> None" by (simp add: update_conv')
  then have "fst (notify_artifacts i arts ?s1) = Inr ()" by (rule notify_artifacts_ok)
  then obtain s2 where n: "notify_artifacts i arts ?s1 = (Inr (), s2)"
    by (cases "notify_artifacts i arts ?s1") auto
  have a: "addArtifacts i arts s = (Inr (with_artifacts t arts), s2)"
    using assms n unfolding addArtifacts_def with_artifacts_def Let_def by simp
  have t2: "tasks s2 = tasks ?s1" using notify_artifacts_tasks[of i arts ?s1] n by simp
  have c2: "pushNotificationConfigs s2 = pushNotificationConfigs ?s1"
    using notify_artifacts_configs[of i arts ?s1] n by simp
  show "fst (addArtifacts i arts s) = Inr (with_artifacts t arts)" using a by simp
  show "tasks (snd (addArtifacts i arts s)) = AList.update i (with_artifacts t arts) (tasks s)"
    using a t2 by simp
  show "pushNotificationConfigs (snd (addArtifacts i arts s)) = pushNotificationConfigs s"
    using a c2 by simp
qed

lemma status_archive [simp]: "status (archive t st) = st"
  by (simp add: archive_def split: option.splits)

lemma metadata_archive [simp]: "metadata (archive t st) = metadata t"
  by (simp add: archive_def split: option.splits)

lemma history_archive:
  "history_list (archive t st) = history_list t @ status_messages [status t]"
  by (simp add: archive_def history_list_def split: option.splits)

lemma status_messages_append:
  "status_messages (xs @ ys) = status_messages xs @ status_messages ys"
  by (induction xs) simp_all

lemma foldl_archive:
  "status (foldl archive t sts) = last (status t # sts) \<and>
   history_list (foldl archive t sts) =
     history_list t @ status_messages (butlast (status t # sts))"
proof (induction sts arbitrary: t)
  case Nil
  then show ?case by simp
next
  case (Cons st sts)
  show ?case using Cons.IH[of "archive t st"] by (simp add: history_archive)
qed

lemma updateStatus_calls_stored:
  "map_of (tasks s) i = Some t \<Longrightarrow>
   map_of (tasks (updateStatus_calls i sts s)) i = Some (foldl archive t sts)"
proof (induction sts arbitrary: s t)
  case Nil
  then show ?case by simp
next
  case (Cons st sts)
  have "map_of (tasks (snd (updateTaskStatus i st s))) i = Some (archive t st)"
    using updateTaskStatus_lookup[OF Cons.prems, of st] by simp
  from Cons.IH[OF this] show ?case by simp
qed

lemma status_messages_length:
  "length (status_messages sts) = length (filter (\<lambda>st. message st \<noteq> None) sts)"
  by (induction sts) (simp_all split: option.splits)

lemma getTask_existing: "map_of (tasks s) i = Some t \<Longrightarrow> getTask i 0 s = Inr t"
  by (simp add: getTask_0)

lemma getTask_missing: "map_of (tasks s) i = None \<Longrightarrow> getTask i 0 s = Inl not_found"
  by (simp add: getTask_0)

lemma updateTaskStatus_pair:
  "map_of (tasks s) i = Some t \<Longrightarrow>
   updateTaskStatus i st s = (Inr (archive t st), snd (updateTaskStatus i st s))"
  using updateTaskStatus_existing[of s i t st] by simp

lemma cancelTask_nonterminal:
  assumes "map_of (tasks s) i = Some t" and "state (status t) \<notin> set terminalStates"
  shows "cancelTask i now s =
    (Inr (archive t (createTaskStatus Canceled
            (Some (createMessage Agent [createTextPart ''Task canceled by user request''])) now)),
     snd (updateTaskStatus i (createTaskStatus Canceled
            (Some (createMessage Agent [createTextPart ''Task canceled by user request''])) now) s))"
proof -
  let ?st = "createTaskStatus Canceled
            (Some (createMessage Agent [createTextPart ''Task canceled by user request''])) now"
  let ?s1 = "snd (updateTaskStatus i ?st s)"
  have u: "updateTaskStatus i ?st s = (Inr (archive t ?st), ?s1)"
    using assms(1) by (rule updateTaskStatus_pair)
  have "map_of (tasks ?s1) i = Some (archive t ?st)"
    using updateTaskStatus_lookup[OF assms(1), of ?st] by simp
  then have g: "getTask i 0 ?s1 = Inr (archive t ?st)" by (rule getTask_existing)
  have "cancelTask i now s =
     (case updateTaskStatus i ?st s of
        (Inl e, s1) \<Rightarrow> (Inl e, s1)
      | (Inr w, s1) \<Rightarrow> (case getTask i 0 s1 of Inl e \<Rightarrow> (Inl e, s1) | Inr r \<Rightarrow> (Inr r, s1)))"
    using assms by (simp add: cancelTask_def getTask_existing Let_def)
  also have "\<dots> = (Inr (archive t ?st), ?s1)"
    by (subst u) (simp add: g)
  finally show ?thesis .
qed

lemma cancelTask_terminal:
  assumes "map_of (tasks s) i = Some t" and "state (status t) \<in> set terminalStates"
  shows "cancelTask i now s =
     (Inl (JsonRpcError TASK_NOT_CANCELABLE ''Task cannot be canceled''), s)"
  using assms by (simp add: cancelTask_def getTask_existing)

lemma cleanup_loop_Cons:
  "cleanup_loop ((k, t) # es) maxAge now s =
     (if expired maxAge now t
      then cleanup_loop es maxAge now
             (s\<lparr>tasks := AList.delete k (tasks s),
                pushNotificationConfigs := (pushNotificationConfigs s)(k := None)\<rparr>)
      else cleanup_loop es maxAge now s)"
  by (simp add: expired_def Let_def)

lemma cleanup_loop_tasks:
  "tasks (cleanup_loop es maxAge now s) =
     filter (\<lambda>(k, t). \<not> (\<exists>t'. (k, t') \<in> set es \<and> expired maxAge now t')) (tasks s)"
proof (induction es arbitrary: s)
  case Nil
  then show ?case by simp
next
  case (Cons e es)
  obtain k t where e: "e = (k, t)" by (cases e)
  show ?case
  proof (cases "expired maxAge now t")
    case True
    then show ?thesis
      unfolding e cleanup_loop_Cons
      by (auto simp add: Cons.IH AList.delete_eq intro!: filter_cong)
  next
    case False
    then show ?thesis
      unfolding e cleanup_loop_Cons
      by (auto simp add: Cons.IH intro!: filter_cong)
  qed
qed

lemma cleanup_loop_configs:
  "pushNotificationConfigs (cleanup_loop es maxAge now s) k =
     (if (\<exists>t'. (k, t') \<in> set es \<and> expired maxAge now t') then None
      else pushNotificationConfigs s k)"
proof (induction es arbitrary: s)
  case Nil
  then show ?case by simp
next
  case (Cons e es)
  obtain k' t where e: "e = (k', t)" by (cases e)
  show ?case
  proof (cases "expired maxAge now t")
    case True
    then show ?thesis
      unfolding e cleanup_loop_Cons by (auto simp add: Cons.IH)
  next
    case False
    then show ?thesis
      unfolding e cleanup_loop_Cons by (auto simp add: Cons.IH)
  qed
qed

lemma distinct_expired_key:
  assumes "distinct (map fst xs)" and "(k, t) \<in> set xs"
  shows "(\<exists>t'. (k, t') \<in> set xs \<and> expired maxAge now t') = expired maxAge now t"
  using eq_key_imp_eq_value[OF assms(1)] assms(2) by blast

lemma cleanup_tasks:
  assumes "distinct (map fst (tasks s))"
  shows "tasks (cleanupExpiredTasks maxAge now s) =
     filter (\<lambda>(k, t). \<not> expired maxAge now t) (tasks s)"
  unfolding cleanupExpiredTasks_def cleanup_loop_tasks
proof (rule filter_cong[OF refl])
  fix x assume x: "x \<in> set (tasks s)"
  obtain k t where kt: "x = (k, t)" by (cases x)
  from distinct_expired_key[OF assms, of k t maxAge now] x kt
  show "(case x of (k, t) \<Rightarrow> \<not> (\<exists>t'. (k, t') \<in> set (tasks s) \<and> expired maxAge now t')) =
        (case x of (k, t) \<Rightarrow> \<not> expired maxAge now t)"
    by auto
qed

lemma map_of_filter_distinct:
  "distinct (map fst xs) \<Longrightarrow>
   map_of (filter (\<lambda>(k, v). P v) xs) k =
     (case map_of xs k of None \<Rightarrow> None | Some v \<Rightarrow> if P v then Some v else None)"
proof (induction xs)
  case Nil
  then show ?case by simp
next
  case (Cons x xs)
  obtain k' v' where x: "x = (k', v')" by (cases x)
  show ?case
  proof (cases "k' = k")
    case True
    have "map_of xs k = None" using Cons.prems x True by (auto simp: map_of_eq_None_iff)
    then have "map_of (filter (\<lambda>(k, v). P v) xs) k = None"
      using Cons.IH Cons.prems by simp
    then show ?thesis using x True by simp
  next
    case False
    then show ?thesis using Cons x by simp
  qed
qed

lemma cleanup_lookup:
  assumes "distinct (map fst (tasks s))"
  shows "map_of (tasks (cleanupExpiredTasks maxAge now s)) i =
      (case map_of (tasks s) i of
         None \<Rightarrow> None
       | Some t \<Rightarrow> if expired maxAge now t then None else Some t)"
  using map_of_filter_distinct[OF assms, of "\<lambda>t. \<not> expired maxAge now t" i]
  by (simp add: cleanup_tasks[OF assms] split: option.splits)

lemma cleanup_configs:
  assumes "distinct (map fst (tasks s))"
  shows "pushNotificationConfigs (cleanupExpiredTasks maxAge now s) i =
      (case map_of (tasks s) i of
         None \<Rightarrow> pushNotificationConfigs s i
       | Some t \<Rightarrow> if expired maxAge now t then None else pushNotificationConfigs s i)"
proof (cases "map_of (tasks s) i")
  case None
  then have "\<And>t'. (i, t') \<notin> set (tasks s)"
    by (metis map_of_eq_None_iff fst_conv image_eqI)
  then show ?thesis using None by (simp add: cleanupExpiredTasks_def cleanup_loop_configs)
next
  case (Some t)
  then have "(i, t) \<in> set (tasks s)" by (rule map_of_SomeD)
  from distinct_expired_key[OF assms this, of maxAge now] show ?thesis
    using Some by (simp add: cleanupExpiredTasks_def cleanup_loop_configs)
qed

lemma foldl_sendArtifact:
  "foldl (\<lambda>a x. sendEvent c ArtifactEvent (ArtifactData x) None a) s arts =
     s\<lparr>calls := calls s @
        map (\<lambda>x. SendEvent \<lparr>ev_conn = c, ev_type = ArtifactEvent,
          ev_data = ArtifactData x, ev_final = False\<rparr>) arts\<rparr>"
  by (induction arts arbitrary: s) (simp_all add: sendEvent_def)

lemma processTask_start_ok:
  assumes "map_of (tasks s) i = Some t" and "determineSkill t = Some k"
    and "k \<in> set skill_ids"
  shows "processTask_start i now s =
     (Inr (k, t), snd (updateTaskStatus i (createTaskStatus Working None now) s))"
proof -
  have u: "updateTaskStatus i (createTaskStatus Working None now) s =
      (Inr (archive t (createTaskStatus Working None now)),
       snd (updateTaskStatus i (createTaskStatus Working None now) s))"
    using assms(1) by (rule updateTaskStatus_pair)
  have "processTask_start i now s =
     (case updateTaskStatus i (createTaskStatus Working None now) s of
        (Inl e, s1) \<Rightarrow> (Inl e, s1)
      | (Inr w, s1) \<Rightarrow> (Inr (k, t), s1))"
    using assms by (simp add: processTask_start_def getTask_existing skills_defined_def)
  also have "\<dots> = (Inr (k, t), snd (updateTaskStatus i (createTaskStatus Working None now) s))"
    by (subst u) simp
  finally show ?thesis .
qed

lemma processTask_apply_ok:
  assumes "map_of (tasks s) i = Some t"
  shows "fst (processTask_apply i (Inr result) now s) = Inr (applied t result now)
    \<and> map_of (tasks (snd (processTask_apply i (Inr result) now s))) i =
        Some (applied t result now)"
proof -
  let ?st = "createTaskStatus Completed (res_message result) now"
  have fin: "(case updateTaskStatus i ?st s1 of
                  (Inl e, s2) \<Rightarrow> processTask_catch i e now s2
                | (Inr w, s2) \<Rightarrow>
                    (case getTask i 0 s2 of
                       Inl e \<Rightarrow> processTask_catch i e now s2
                     | Inr r \<Rightarrow> (Inr r, s2))) =
             (Inr (archive t1 ?st), snd (updateTaskStatus i ?st s1))"
    if "map_of (tasks s1) i = Some t1" for s1 t1
  proof -
    have "map_of (tasks (snd (updateTaskStatus i ?st s1))) i = Some (archive t1 ?st)"
      using updateTaskStatus_lookup[OF that, of ?st] by simp
    then have g: "getTask i 0 (snd (updateTaskStatus i ?st s1)) = Inr (archive t1 ?st)"
      by (rule getTask_existing)
    show ?thesis by (subst updateTaskStatus_pair[OF that]) (simp add: g)
  qed
  have look: "map_of (tasks (snd (updateTaskStatus i ?st s1))) i = Some (archive t1 ?st)"
    if "map_of (tasks s1) i = Some t1" for s1 t1
    using updateTaskStatus_lookup[OF that, of ?st] by simp
  show ?thesis
  proof (cases "\<exists>arts. res_artifacts result = Some arts \<and> 0 < length arts")
    case False
    then have a: "(case res_artifacts result of
                   None \<Rightarrow> (Inr (), s)
                 | Some arts \<Rightarrow>
                     if 0 < length arts
                     then (case addArtifacts i arts s of
                             (Inl e, s1) \<Rightarrow> (Inl e, s1)
                           | (Inr w, s1) \<Rightarrow> (Inr (), s1))
                     else (Inr (), s)) = (Inr (), s)"
      by (auto split: option.splits)
    have ap: "applied t result now = archive t ?st"
      using False by (auto simp add: applied_def split: option.splits)
    have "processTask_apply i (Inr result) now s =
        (Inr (archive t ?st), snd (updateTaskStatus i ?st s))"
      unfolding processTask_apply_def using fin[OF assms] by (simp add: a)
    then show ?thesis using look[OF assms] ap by simp
  next
    case True
    then obtain arts where arts: "res_artifacts result = Some arts" "0 < length arts" by auto
    obtain r1 s1 where ad0: "addArtifacts i arts s = (r1, s1)"
      by (cases "addArtifacts i arts s")
    have ad: "addArtifacts i arts s = (Inr (with_artifacts t arts), s1)"
      using addArtifacts_existing(1)[OF assms, of arts] ad0 by simp
    have l1: "map_of (tasks s1) i = Some (with_artifacts t arts)"
      using addArtifacts_existing(2)[OF assms, of arts] ad0 by (simp add: update_conv')
    have a: "(case res_artifacts result of
                   None \<Rightarrow> (Inr (), s)
                 | Some arts \<Rightarrow>
                     if 0 < length arts
                     then (case addArtifacts i arts s of
                             (Inl e, s1) \<Rightarrow> (Inl e, s1)
                           | (Inr w, s1) \<Rightarrow> (Inr (), s1))
                     else (Inr (), s)) = (Inr (), s1)"
      using arts by (simp add: ad)
    have ap: "applied t result now = archive (with_artifacts t arts) ?st"
      using arts by (simp add: applied_def)
    have "processTask_apply i (Inr result) now s =
        (Inr (archive (with_artifacts t arts) ?st), snd (updateTaskStatus i ?st s1))"
      unfolding processTask_apply_def using fin[OF l1] by (simp add: a)
    then show ?thesis using look[OF l1] ap by simp
  qed
qed

lemma status_applied [simp]:
  "status (applied t result now) =
     \<lparr>state = Completed, message = res_message result, timestamp = now\<rparr>"
  by (simp add: applied_def createTaskStatus_def)

lemma metadata_applied [simp]: "metadata (applied t result now) = metadata t"
  by (simp add: applied_def with_artifacts_def split: option.splits)

lemma continueTask_not_waiting:
  assumes "map_of (tasks s) i = Some t" and "state (status t) \<noteq> InputRequired"
  shows "continueTask proc cont i userMessage now1 now2 s =
     (Inl (JsonRpcError INVALID_TASK_STATE ''Task is not waiting for input''), s)"
  using assms by (simp add: continueTask_def getTask_existing)

lemma determineSkill_history [simp]:
  "determineSkill (t\<lparr>history := h\<rparr>) = determineSkill t"
  by (simp add: determineSkill_def Let_def)

lemma continueTask_restart:
  assumes "map_of (tasks s) i = Some t" and "state (status t) = InputRequired"
    and "determineSkill t = Some k" and "k \<in> set skill_ids"
    and "\<not> has_continueOrchestration k"
  shows "continueTask proc cont i userMessage now1 now2 s = processTask proc i now1 now2 s"
  using assms by (simp add: continueTask_def getTask_existing Let_def skills_defined_def)

text \<open>
  The keys of the task map stay distinct: the hypothesis of the sweep theorem
  holds in every state the operations produce from the empty task manager.
\<close>

lemma distinct_new: "distinct (map fst (tasks new_TaskManager))"
  by (simp add: new_TaskManager_def)

lemma distinct_createTask:
  "distinct (map fst (tasks s)) \<Longrightarrow>
   distinct (map fst (tasks (snd (createTask i sid msg now s))))"
  by (simp add: createTask_def Let_def distinct_update split: option.splits)

lemma distinct_updateTaskStatus:
  assumes "distinct (map fst (tasks s))"
  shows "distinct (map fst (tasks (snd (updateTaskStatus i st s))))"
proof (cases "map_of (tasks s) i")
  case None
  then show ?thesis using assms by (simp add: updateTaskStatus_missing)
next
  case (Some t)
  then show ?thesis using assms by (simp add: updateTaskStatus_tasks distinct_update)
qed

lemma distinct_addArtifacts:
  assumes "distinct (map fst (tasks s))"
  shows "distinct (map fst (tasks (snd (addArtifacts i arts s))))"
proof (cases "map_of (tasks s) i")
  case None
  then show ?thesis using assms by (simp add: addArtifacts_def)
next
  case (Some t)
  then show ?thesis using assms by (simp add: addArtifacts_existing(2) distinct_update)
qed

lemma distinct_cleanup:
  "distinct (map fst (tasks s)) \<Longrightarrow>
   distinct (map fst (tasks (cleanupExpiredTasks maxAge now s)))"
  by (simp add: cleanup_tasks distinct_map_filter)

text \<open>
  Live subscriptions are an invariant: it holds of the empty task manager and
  every operation keeps it, provided the connections that are attached are
  fresh. So in every state the operations reach, a registered connection is
  registered once and has received no final event.
\<close>

lemma live_attached:
  "live_registry s \<Longrightarrow> streamingConnections s i = Some cs \<Longrightarrow>
   distinct cs \<and> (\<forall>c \<in> set cs. final_events c s = [])"
  unfolding live_registry_def by blast

lemma live_new: "live_registry new_TaskManager"
  by (simp add: live_registry_def new_TaskManager_def)

lemma live_same:
  "streamingConnections s' = streamingConnections s \<Longrightarrow> calls s' = calls s \<Longrightarrow>
   live_registry s \<Longrightarrow> live_registry s'"
  by (simp add: live_registry_def final_events_def sent_def closed_def)

lemma untouched_conn:
  "filter (\<lambda>x. conn_of x = c) xs = [] \<Longrightarrow>
   filter (\<lambda>e. ev_conn e = c \<and> ev_final e) (sent_of xs) = [] \<and> c \<notin> set (closed_of xs)"
  by (induction xs rule: sent_of.induct) (auto split: if_splits)

lemma live_notify:
  assumes "live_registry s"
  shows "live_registry (snd (notifyStreamingConnections i ty d s))"
proof (cases "streamingConnections s i")
  case None
  then show ?thesis using assms by (simp add: notify_no_connections)
next
  case (Some cs)
  note reg = Some
  show ?thesis
  proof (cases "map_of (tasks s) i")
    case None
    then show ?thesis using assms reg by (simp add: notifyStreamingConnections_def getTask_0)
  next
    case (Some t)
    show ?thesis
    proof (cases "state (status t) \<in> set terminalStates")
      case False
      let ?s' = "s\<lparr>calls := calls s @
               map (\<lambda>c. SendEvent
                      \<lparr>ev_conn = c, ev_type = ty, ev_data = d, ev_final = False\<rparr>) cs\<rparr>"
      have r: "snd (notifyStreamingConnections i ty d s) = ?s'"
        using notify_connections[OF reg Some, of ty d] False by simp
      have fe: "final_events c ?s' = final_events c s" for c
        by (simp add: final_events_def sent_def filter_empty_conv)
      have cl: "closed ?s' = closed s" by (simp add: closed_def)
      have "live_registry ?s'"
        using assms unfolding live_registry_def fe cl by simp
      then show ?thesis by (simp add: r)
    next
      case True
      let ?s' = "s\<lparr>calls := calls s @
               map (\<lambda>c. SendEvent
                      \<lparr>ev_conn = c, ev_type = ty, ev_data = d, ev_final = True\<rparr>) cs @
               map Close cs,
             streamingConnections := (streamingConnections s)(i := None)\<rparr>"
      have r: "snd (notifyStreamingConnections i ty d s) = ?s'"
        using notify_connections[OF reg Some, of ty d] True by simp
      have fe: "final_events c ?s' = final_events c s" if "c \<notin> set cs" for c
        using that by (auto simp add: final_events_def sent_def filter_empty_conv)
      have cl: "closed ?s' = closed s @ cs" by (simp add: closed_def)
      have "live_registry ?s'"
        unfolding live_registry_def
      proof (intro allI impI)
        fix j cs' assume "streamingConnections ?s' j = Some cs'"
        then have j: "j \<noteq> i" "streamingConnections s j = Some cs'"
          by (auto split: if_splits)
        from assms j(2) have d: "distinct cs'"
          and p: "\<And>c. c \<in> set cs' \<Longrightarrow> final_events c s = [] \<and> c \<notin> set (closed s) \<and>
             (\<forall>k cs2. streamingConnections s k = Some cs2 \<longrightarrow> c \<in> set cs2 \<longrightarrow> k = j)"
          unfolding live_registry_def by blast+
        have out: "c \<notin> set cs" if "c \<in> set cs'" for c
          using p[OF that] reg j(1) by blast
        show "distinct cs' \<and>
          (\<forall>c\<in>set cs'. final_events c ?s' = [] \<and> c \<notin> set (closed ?s') \<and>
             (\<forall>ja cs'a. streamingConnections ?s' ja = Some cs'a \<longrightarrow> c \<in> set cs'a \<longrightarrow> ja = j))"
        proof (intro conjI ballI)
          show "distinct cs'" by (rule d)
        next
          fix c assume c: "c \<in> set cs'"
          show "final_events c ?s' = []" using fe[OF out[OF c]] p[OF c] by simp
          show "c \<notin> set (closed ?s')" using out[OF c] p[OF c] by (simp add: cl)
          show "\<forall>ja cs'a. streamingConnections ?s' ja = Some cs'a \<longrightarrow> c \<in> set cs'a \<longrightarrow> ja = j"
            using p[OF c] by (auto split: if_splits)
        qed
      qed
      then show ?thesis by (simp add: r)
    qed
  qed
qed

lemma live_updateTaskStatus:
  assumes "live_registry s"
  shows "live_registry (snd (updateTaskStatus i st s))"
proof (cases "map_of (tasks s) i")
  case None
  then show ?thesis using assms by (simp add: updateTaskStatus_missing)
next
  case (Some t)
  let ?s1 = "s\<lparr>tasks := AList.update i (archive t st) (tasks s)\<rparr>"
  let ?s2 = "snd (notifyStreamingConnections i StatusEvent (StatusData st) ?s1)"
  have "live_registry ?s1" using assms by (rule live_same[rotated 2]) simp_all
  then have l2: "live_registry ?s2" by (rule live_notify)
  then have "live_registry (sendPushNotification i ?s2)"
    by (rule live_same[rotated 2]) simp_all
  with l2 show ?thesis by (simp add: updateTaskStatus_existing[OF Some] Let_def)
qed

lemma live_notify_artifacts:
  "live_registry s \<Longrightarrow> live_registry (snd (notify_artifacts i as s))"
proof (induction as arbitrary: s)
  case Nil
  then show ?case by simp
next
  case (Cons a as)
  obtain r s1 where n: "notifyStreamingConnections i ArtifactEvent (ArtifactData a) s = (r, s1)"
    by (cases "notifyStreamingConnections i ArtifactEvent (ArtifactData a) s")
  have l1: "live_registry s1"
    using live_notify[OF Cons.prems, of i ArtifactEvent "ArtifactData a"] n by simp
  show ?case using n l1 Cons.IH[OF l1] by (cases r) simp_all
qed

lemma live_addArtifacts:
  assumes "live_registry s"
  shows "live_registry (snd (addArtifacts i arts s))"
proof (cases "map_of (tasks s) i")
  case None
  then show ?thesis using assms by (simp add: addArtifacts_def)
next
  case (Some t)
  let ?s1 = "s\<lparr>tasks := AList.update i (with_artifacts t arts) (tasks s)\<rparr>"
  obtain r s2 where n: "notify_artifacts i arts ?s1 = (r, s2)"
    by (cases "notify_artifacts i arts ?s1")
  have "live_registry ?s1" using assms by (rule live_same[rotated 2]) simp_all
  then have "live_registry s2" using live_notify_artifacts[of ?s1 i arts] n by simp
  moreover have "snd (addArtifacts i arts s) = s2"
    using Some n unfolding addArtifacts_def with_artifacts_def Let_def by (cases r) simp_all
  ultimately show ?thesis by simp
qed

lemma addStreamingConnection_effect:
  "\<exists>xs. calls (snd (addStreamingConnection i c s)) = calls s @ xs
      \<and> filter ev_final (sent_of xs) = [] \<and> closed_of xs = []"
proof (cases "map_of (tasks s) i")
  case None
  then have "calls (snd (addStreamingConnection i c s)) = calls s @ []"
    by (simp add: addStreamingConnection_def Let_def getTask_0)
  then show ?thesis by (intro exI[of _ "[]"]) simp
next
  case (Some t)
  let ?xs = "SendEvent \<lparr>ev_conn = c, ev_type = StatusEvent, ev_data = StatusData (status t),
          ev_final = False\<rparr> #
        map (\<lambda>a. SendEvent \<lparr>ev_conn = c, ev_type = ArtifactEvent,
                   ev_data = ArtifactData a, ev_final = False\<rparr>)
          (case artifacts t of None \<Rightarrow> [] | Some arts \<Rightarrow> arts)"
  have "calls (snd (addStreamingConnection i c s)) = calls s @ ?xs"
    using Some
    by (simp add: addStreamingConnection_def Let_def getTask_0 foldl_sendArtifact
        split: option.splits) (simp add: sendEvent_def)
  moreover have "filter ev_final (sent_of ?xs) = []" by (simp add: filter_empty_conv)
  moreover have "closed_of ?xs = []" by simp
  ultimately show ?thesis by blast
qed

lemma addStreamingConnection_registry:
  "streamingConnections (snd (addStreamingConnection i c s)) =
     (streamingConnections s)
       (i \<mapsto> (case streamingConnections s i of None \<Rightarrow> [] | Some l \<Rightarrow> l) @ [c])"
  by (simp add: addStreamingConnection_def Let_def getTask_0 foldl_sendArtifact
      split: option.splits sum.splits) (simp add: sendEvent_def)

lemma live_addStreamingConnection:
  assumes "live_registry s" and "fresh_conn c s"
  shows "live_registry (snd (addStreamingConnection i c s))"
proof -
  let ?s' = "snd (addStreamingConnection i c s)"
  define cs0 where "cs0 = (case streamingConnections s i of None \<Rightarrow> [] | Some l \<Rightarrow> l)"
  obtain xs where k: "calls ?s' = calls s @ xs"
    and nf: "filter ev_final (sent_of xs) = []" and nc: "closed_of xs = []"
    using addStreamingConnection_effect[of i c s] by blast
  have reg: "streamingConnections ?s' = (streamingConnections s)(i \<mapsto> cs0 @ [c])"
    unfolding cs0_def by (rule addStreamingConnection_registry)
  have fe: "final_events a ?s' = final_events a s" for a
  proof -
    have "filter (\<lambda>e. ev_conn e = a \<and> ev_final e) (sent_of xs) = []"
      using nf unfolding filter_empty_conv by blast
    then show ?thesis by (simp add: final_events_def sent_def k)
  qed
  have cl: "closed ?s' = closed s" by (simp add: closed_def k nc)
  have un: "final_events c s = [] \<and> c \<notin> set (closed s)"
    using assms(2) untouched_conn[of c "calls s"]
    by (simp add: fresh_conn_def calls_on_def final_events_def sent_def closed_def)
  have nowhere: "c \<notin> set cs" if "streamingConnections s j = Some cs" for j cs
    using assms(2) that unfolding fresh_conn_def by blast
  have old: "final_events a s = [] \<and> a \<notin> set (closed s) \<and>
      (\<forall>k cs2. streamingConnections s k = Some cs2 \<longrightarrow> a \<in> set cs2 \<longrightarrow> k = j)"
    if "streamingConnections s j = Some cs" "a \<in> set cs" for j cs a
    using assms(1) that unfolding live_registry_def by blast
  have dist: "distinct cs" if "streamingConnections s j = Some cs" for j cs
    using assms(1) that unfolding live_registry_def by blast
  have mem: "streamingConnections s i = Some cs0" if "a \<in> set cs0" for a
  proof (cases "streamingConnections s i")
    case None
    then show ?thesis using that by (simp add: cs0_def)
  next
    case (Some l)
    then show ?thesis by (simp add: cs0_def)
  qed
  have d0: "distinct (cs0 @ [c])"
  proof (cases "streamingConnections s i")
    case None
    then show ?thesis by (simp add: cs0_def)
  next
    case (Some l)
    then have "cs0 = l" by (simp add: cs0_def)
    then show ?thesis using dist[OF Some] nowhere[OF Some] by simp
  qed
  have owner: "(a = c \<and> j = i) \<or>
      (a \<noteq> c \<and> (\<exists>cs. streamingConnections s j = Some cs \<and> a \<in> set cs))"
    if r: "streamingConnections ?s' j = Some cs'" and m: "a \<in> set cs'" for j cs' a
  proof (cases "j = i")
    case True
    then have "cs' = cs0 @ [c]" using r by (simp add: reg)
    then have "a \<in> set cs0 \<or> a = c" using m by auto
    then show ?thesis
    proof
      assume a0: "a \<in> set cs0"
      have "a \<noteq> c" using nowhere[OF mem[OF a0]] a0 by blast
      then show ?thesis using mem[OF a0] a0 True by blast
    next
      assume "a = c"
      then show ?thesis using True by blast
    qed
  next
    case False
    then have r0: "streamingConnections s j = Some cs'" using r by (simp add: reg)
    have "a \<noteq> c" using nowhere[OF r0] m by blast
    then show ?thesis using r0 m by blast
  qed
  have good: "final_events a s = [] \<and> a \<notin> set (closed s) \<and>
      (\<forall>k cs2. streamingConnections ?s' k = Some cs2 \<longrightarrow> a \<in> set cs2 \<longrightarrow> k = j)"
    if r: "streamingConnections ?s' j = Some cs'" and m: "a \<in> set cs'" for j cs' a
  proof -
    from owner[OF r m] show ?thesis
    proof
      assume ac: "a = c \<and> j = i"
      have "k = j" if "streamingConnections ?s' k = Some cs2" "a \<in> set cs2" for k cs2
        using owner[OF that] ac by blast
      then show ?thesis using un ac by blast
    next
      assume na: "a \<noteq> c \<and> (\<exists>cs. streamingConnections s j = Some cs \<and> a \<in> set cs)"
      then obtain cs where rj: "streamingConnections s j = Some cs" "a \<in> set cs" by blast
      have "k = j" if "streamingConnections ?s' k = Some cs2" "a \<in> set cs2" for k cs2
        using owner[OF that] na old[OF rj] by blast
      then show ?thesis using old[OF rj] by blast
    qed
  qed
  have dd: "distinct cs'" if r: "streamingConnections ?s' j = Some cs'" for j cs'
  proof (cases "j = i")
    case True
    then have "cs' = cs0 @ [c]" using r by (simp add: reg)
    then show ?thesis using d0 by simp
  next
    case False
    then have "streamingConnections s j = Some cs'" using r by (simp add: reg)
    then show ?thesis by (rule dist)
  qed
  show ?thesis
    unfolding live_registry_def fe cl using dd good by blast
qed

lemma live_shrink:
  assumes "live_registry s" and "calls s' = calls s"
    and sh: "\<And>j cs'. streamingConnections s' j = Some cs' \<Longrightarrow>
      \<exists>cs0. streamingConnections s j = Some cs0 \<and> set cs' \<subseteq> set cs0 \<and> distinct cs'"
  shows "live_registry s'"
proof -
  have old: "\<And>j cs a. streamingConnections s j = Some cs \<Longrightarrow> a \<in> set cs \<Longrightarrow>
      final_events a s = [] \<and> a \<notin> set (closed s) \<and>
      (\<forall>k cs2. streamingConnections s k = Some cs2 \<longrightarrow> a \<in> set cs2 \<longrightarrow> k = j)"
    using assms(1) unfolding live_registry_def by blast
  have fe: "final_events a s' = final_events a s" for a
    by (simp add: final_events_def sent_def assms(2))
  have cl: "closed s' = closed s" by (simp add: closed_def assms(2))
  show ?thesis
    unfolding live_registry_def fe cl
  proof (intro allI impI)
    fix j cs'
    assume a: "streamingConnections s' j = Some cs'"
    from sh[OF a] obtain cs0 where r0: "streamingConnections s j = Some cs0"
      and s0: "set cs' \<subseteq> set cs0" and d0: "distinct cs'"
      by blast
    have "\<forall>a\<in>set cs'. final_events a s = [] \<and> a \<notin> set (closed s) \<and>
          (\<forall>ja cs2. streamingConnections s' ja = Some cs2 \<longrightarrow> a \<in> set cs2 \<longrightarrow> ja = j)"
    proof
      fix a assume m: "a \<in> set cs'"
      then have m0: "a \<in> set cs0" using s0 by blast
      have "ja = j" if "streamingConnections s' ja = Some cs2" "a \<in> set cs2" for ja cs2
      proof -
        from sh[OF that(1)] obtain cs3 where "streamingConnections s ja = Some cs3"
          and "set cs2 \<subseteq> set cs3" by blast
        then show ?thesis using old[OF r0 m0] that(2) by blast
      qed
      then show "final_events a s = [] \<and> a \<notin> set (closed s) \<and>
          (\<forall>ja cs2. streamingConnections s' ja = Some cs2 \<longrightarrow> a \<in> set cs2 \<longrightarrow> ja = j)"
        using old[OF r0 m0] by blast
    qed
    with d0 show "distinct cs' \<and>
        (\<forall>a\<in>set cs'. final_events a s = [] \<and> a \<notin> set (closed s) \<and>
          (\<forall>ja cs2. streamingConnections s' ja = Some cs2 \<longrightarrow> a \<in> set cs2 \<longrightarrow> ja = j))"
      by blast
  qed
qed

lemma live_removeStreamingConnection:
  assumes "live_registry s"
  shows "live_registry (removeStreamingConnection i c s)"
proof (cases "streamingConnections s i")
  case None
  then show ?thesis using assms by (simp add: removeStreamingConnection_def)
next
  case (Some cs)
  have sub: "set (remove1 c cs) \<subseteq> set cs" by (rule set_remove1_subset)
  have d: "distinct cs" using assms Some unfolding live_registry_def by blast
  then have d1: "distinct (remove1 c cs)" by (rule distinct_remove1)
  have dist: "\<And>j cs. streamingConnections s j = Some cs \<Longrightarrow> distinct cs"
    using assms unfolding live_registry_def by blast
  let ?s' = "removeStreamingConnection i c s"
  have k: "calls ?s' = calls s"
    using Some by (simp add: removeStreamingConnection_def Let_def)
  have reg: "streamingConnections ?s' j = Some cs' \<Longrightarrow>
      (j = i \<and> cs' = remove1 c cs) \<or> (j \<noteq> i \<and> streamingConnections s j = Some cs')" for j cs'
    using Some by (simp add: removeStreamingConnection_def Let_def split: if_splits)
  show ?thesis
  proof (rule live_shrink[OF assms k])
    fix j cs'
    assume "streamingConnections ?s' j = Some cs'"
    from reg[OF this]
    show "\<exists>cs0. streamingConnections s j = Some cs0 \<and> set cs' \<subseteq> set cs0 \<and> distinct cs'"
    proof
      assume "j = i \<and> cs' = remove1 c cs"
      then show ?thesis using Some sub d1 by blast
    next
      assume "j \<noteq> i \<and> streamingConnections s j = Some cs'"
      then show ?thesis using dist by blast
    qed
  qed
qed

lemma live_updateTaskStatusD:
  "updateTaskStatus i st s = (r, s1) \<Longrightarrow> live_registry s \<Longrightarrow> live_registry s1"
  using live_updateTaskStatus[of s i st] by simp

lemma live_addArtifactsD:
  "addArtifacts i arts s = (r, s1) \<Longrightarrow> live_registry s \<Longrightarrow> live_registry s1"
  using live_addArtifacts[of s i arts] by simp

lemma live_createTask:
  assumes "live_registry s"
  shows "live_registry (snd (createTask i sid msg now s))"
  using assms
  by (rule live_same[rotated 2]) (simp_all add: createTask_def Let_def split: option.splits)

lemma live_setPushNotificationConfig:
  assumes "live_registry s"
  shows "live_registry (snd (setPushNotificationConfig i config s))"
  using assms
  by (rule live_same[rotated 2])
    (simp_all add: setPushNotificationConfig_def split: option.splits sum.splits)

lemma cleanup_loop_calls [simp]: "calls (cleanup_loop es maxAge now s) = calls s"
  by (induction es maxAge now s rule: cleanup_loop.induct) (simp_all add: Let_def)

lemma cleanup_loop_conns [simp]:
  "streamingConnections (cleanup_loop es maxAge now s) = streamingConnections s"
  by (induction es maxAge now s rule: cleanup_loop.induct) (simp_all add: Let_def)

lemma live_cleanup:
  assumes "live_registry s"
  shows "live_registry (cleanupExpiredTasks maxAge now s)"
  using assms by (rule live_same[rotated 2]) (simp_all add: cleanupExpiredTasks_def)

lemma live_cancelTask:
  assumes "live_registry s"
  shows "live_registry (snd (cancelTask i now s))"
proof -
  let ?st = "createTaskStatus Canceled
            (Some (createMessage Agent [createTextPart ''Task canceled by user request''])) now"
  obtain r s1 where u: "updateTaskStatus i ?st s = (r, s1)"
    by (cases "updateTaskStatus i ?st s")
  have l1: "live_registry s1" using u assms by (rule live_updateTaskStatusD)
  have "snd (cancelTask i now s) = s \<or> snd (cancelTask i now s) = s1"
    using u by (simp add: cancelTask_def Let_def split: sum.splits)
  then show ?thesis using assms l1 by auto
qed

lemma live_processTask_start:
  assumes "live_registry s"
  shows "live_registry (snd (processTask_start i now s))"
proof -
  let ?st = "createTaskStatus Working None now"
  obtain r s1 where u: "updateTaskStatus i ?st s = (r, s1)"
    by (cases "updateTaskStatus i ?st s")
  have l1: "live_registry s1" using u assms by (rule live_updateTaskStatusD)
  have "snd (processTask_start i now s) = s \<or> snd (processTask_start i now s) = s1"
    using u by (simp add: processTask_start_def split: sum.splits option.splits)
  then show ?thesis using assms l1 by auto
qed

lemma live_processTask_catch:
  assumes "live_registry s"
  shows "live_registry (snd (processTask_catch i e now s))"
proof -
  let ?st = "createTaskStatus Failed
     (Some (createMessage Agent [createTextPart (''Error: '' @ error_message e)])) now"
  obtain r s1 where u: "updateTaskStatus i ?st s = (r, s1)"
    by (cases "updateTaskStatus i ?st s")
  have l1: "live_registry s1" using u assms by (rule live_updateTaskStatusD)
  have "snd (processTask_catch i e now s) = s1"
    using u by (simp add: processTask_catch_def Let_def split: sum.splits)
  then show ?thesis using l1 by simp
qed

lemma live_processTask_apply:
  assumes "live_registry s"
  shows "live_registry (snd (processTask_apply i outcome now s))"
proof (cases outcome)
  case (Inl m)
  then show ?thesis using live_processTask_catch[OF assms] by (simp add: processTask_apply_def)
next
  case (Inr result)
  define a where "a = (case res_artifacts result of
                   None \<Rightarrow> (Inr (), s)
                 | Some arts \<Rightarrow>
                     if 0 < length arts
                     then (case addArtifacts i arts s of
                             (Inl e, s1) \<Rightarrow> (Inl e, s1)
                           | (Inr w, s1) \<Rightarrow> (Inr (), s1))
                     else (Inr (), s))"
  obtain ra sa where a: "a = (ra, sa)" by (cases a)
  have la: "live_registry sa"
  proof (cases "res_artifacts result")
    case None
    then show ?thesis using a assms by (simp add: a_def)
  next
    case (Some arts)
    obtain r1 s1 where ad: "addArtifacts i arts s = (r1, s1)" by (cases "addArtifacts i arts s")
    have "live_registry s1" using ad assms by (rule live_addArtifactsD)
    moreover have "sa = s \<or> sa = s1"
      using a Some ad by (cases r1) (auto simp add: a_def split: if_splits)
    ultimately show ?thesis using assms by auto
  qed
  let ?st = "createTaskStatus Completed (res_message result) now"
  obtain r2 s2 where u: "updateTaskStatus i ?st sa = (r2, s2)"
    by (cases "updateTaskStatus i ?st sa")
  have l2: "live_registry s2" using u la by (rule live_updateTaskStatusD)
  have eq: "processTask_apply i outcome now s =
     (case a of
        (Inl e, s1) \<Rightarrow> processTask_catch i e now s1
      | (Inr u, s1) \<Rightarrow>
          (case updateTaskStatus i ?st s1 of
             (Inl e, s2) \<Rightarrow> processTask_catch i e now s2
           | (Inr w, s2) \<Rightarrow>
               (case getTask i 0 s2 of
                  Inl e \<Rightarrow> processTask_catch i e now s2
                | Inr r \<Rightarrow> (Inr r, s2))))"
    using Inr by (simp add: processTask_apply_def a_def)
  show ?thesis
  proof (cases ra)
    case (Inl e)
    then show ?thesis using live_processTask_catch[OF la] by (simp add: eq a)
  next
    case ok: (Inr x)
    show ?thesis
    proof (cases r2)
      case (Inl e)
      then show ?thesis using live_processTask_catch[OF l2] by (simp add: eq a ok u)
    next
      case (Inr w)
      then show ?thesis
        using live_processTask_catch[OF l2] l2
        by (cases "getTask i 0 s2") (simp_all add: eq a ok u)
    qed
  qed
qed

lemma live_processTask:
  assumes "live_registry s"
  shows "live_registry (snd (processTask proc i now1 now2 s))"
proof -
  obtain r s1 where st: "processTask_start i now1 s = (r, s1)"
    by (cases "processTask_start i now1 s")
  have l1: "live_registry s1" using live_processTask_start[OF assms, of i now1] st by simp
  show ?thesis
  proof (cases r)
    case (Inl e)
    then show ?thesis using l1 by (simp add: processTask_def st)
  next
    case (Inr kt)
    obtain k t where "kt = (k, t)" by (cases kt)
    then show ?thesis using Inr live_processTask_apply[OF l1] by (simp add: processTask_def st)
  qed
qed

lemma live_continueTask:
  assumes "live_registry s"
  shows "live_registry (snd (continueTask proc cont i userMessage now1 now2 s))"
proof (cases "getTask i 0 s")
  case (Inl e)
  then show ?thesis using assms by (simp add: continueTask_def)
next
  case (Inr t0)
  define t where "t = t0\<lparr>history :=
      Some ((case history t0 of None \<Rightarrow> [] | Some h \<Rightarrow> h) @ [userMessage])\<rparr>"
  show ?thesis
  proof (cases "state (status t0) \<noteq> InputRequired")
    case True
    then show ?thesis using Inr assms by (simp add: continueTask_def)
  next
    case False
    show ?thesis
    proof (cases "determineSkill t")
      case None
      then show ?thesis using Inr False assms by (simp add: continueTask_def Let_def t_def)
    next
      case (Some k)
      show ?thesis
      proof (cases "skills_defined k")
        case nd: False
        then show ?thesis
          using Inr False Some assms by (simp add: continueTask_def Let_def t_def)
      next
        case df: True
        show ?thesis
        proof (cases "has_continueOrchestration k")
          case nc: False
          then show ?thesis
            using Inr False Some df live_processTask[OF assms]
            by (simp add: continueTask_def Let_def t_def)
        next
          case hc: True
          show ?thesis
          proof (cases "cont t")
            case (Inl m)
            then show ?thesis
              using Inr False Some df hc assms
              by (simp add: continueTask_def Let_def t_def)
          next
            case cr: (Inr rt)
            obtain result t' where rt: "rt = (result, t')" by (cases rt)
            define a where "a = (case res_artifacts result of
                                    None \<Rightarrow> (Inr (), s)
                                  | Some arts \<Rightarrow>
                                      (case addArtifacts i arts s of
                                         (Inl e, s1) \<Rightarrow> (Inl e, s1)
                                       | (Inr w, s1) \<Rightarrow> (Inr (), s1)))"
            obtain ra sa where a: "a = (ra, sa)" by (cases a)
            have la: "live_registry sa"
            proof (cases "res_artifacts result")
              case None
              then show ?thesis using a assms by (simp add: a_def)
            next
              case (Some arts)
              obtain r1 s1 where ad: "addArtifacts i arts s = (r1, s1)"
                by (cases "addArtifacts i arts s")
              have "live_registry s1" using ad assms by (rule live_addArtifactsD)
              moreover have "sa = s1" using a Some ad by (cases r1) (simp_all add: a_def)
              ultimately show ?thesis by simp
            qed
            define b where "b = (case res_message result of
                                         None \<Rightarrow> (Inr (), sa)
                                       | Some m \<Rightarrow>
                                           (case updateTaskStatus i
                                                   (createTaskStatus
                                                      (if state (status t') = InputRequired
                                                       then InputRequired else Completed)
                                                      (Some m) now1) sa of
                                              (Inl e, s2) \<Rightarrow> (Inl e, s2)
                                            | (Inr w, s2) \<Rightarrow> (Inr (), s2)))"
            obtain rb sb where b: "b = (rb, sb)" by (cases b)
            have lb: "live_registry sb"
            proof (cases "res_message result")
              case None
              then show ?thesis using b la by (simp add: b_def)
            next
              case (Some m)
              let ?st = "createTaskStatus
                           (if state (status t') = InputRequired
                            then InputRequired else Completed) (Some m) now1"
              obtain r2 s2 where u: "updateTaskStatus i ?st sa = (r2, s2)"
                by (cases "updateTaskStatus i ?st sa")
              have "live_registry s2" using u la by (rule live_updateTaskStatusD)
              moreover have "sb = s2" using b Some u by (cases r2) (simp_all add: b_def)
              ultimately show ?thesis by simp
            qed
            have eq: "continueTask proc cont i userMessage now1 now2 s =
               (case a of
                  (Inl e, s1) \<Rightarrow> (Inl e, s1)
                | (Inr u, s1) \<Rightarrow>
                    (case (case res_message result of
                                         None \<Rightarrow> (Inr (), s1)
                                       | Some m \<Rightarrow>
                                           (case updateTaskStatus i
                                                   (createTaskStatus
                                                      (if state (status t') = InputRequired
                                                       then InputRequired else Completed)
                                                      (Some m) now1) s1 of
                                              (Inl e, s2) \<Rightarrow> (Inl e, s2)
                                            | (Inr w, s2) \<Rightarrow> (Inr (), s2))) of
                       (Inl e, s2) \<Rightarrow> (Inl e, s2)
                     | (Inr u2, s2) \<Rightarrow>
                         (case getTask i 0 s2 of
                            Inl e \<Rightarrow> (Inl e, s2)
                          | Inr r \<Rightarrow> (Inr r, s2))))"
              using Inr False Some df hc cr rt
              unfolding continueTask_def Let_def t_def a_def by simp
            show ?thesis
            proof (cases ra)
              case (Inl e)
              then show ?thesis using la by (simp add: eq a)
            next
              case oka: (Inr x)
              have eq2: "continueTask proc cont i userMessage now1 now2 s =
                  (case b of
                       (Inl e, s2) \<Rightarrow> (Inl e, s2)
                     | (Inr u2, s2) \<Rightarrow>
                         (case getTask i 0 s2 of
                            Inl e \<Rightarrow> (Inl e, s2)
                          | Inr r \<Rightarrow> (Inr r, s2)))"
                unfolding eq a b_def using oka by simp
              show ?thesis
                using lb by (cases rb; cases "getTask i 0 sb") (simp_all add: eq2 b)
            qed
          qed
        qed
      qed
    qed
  qed
qed

lemma live_handleTasksResubscribe:
  assumes "live_registry s" and "fresh_conn c s"
  shows "live_registry (snd (handleTasksResubscribe i c s))"
  using assms live_addStreamingConnection[OF assms, of i]
  by (simp add: handleTasksResubscribe_def split: sum.splits)

lemma notify_elsewhere:
  assumes "\<And>cs. streamingConnections s j = Some cs \<Longrightarrow> c \<notin> set cs"
  shows "calls_on c (snd (notifyStreamingConnections j ty d s)) = calls_on c s"
proof (cases "streamingConnections s j")
  case None
  then show ?thesis by (simp add: notify_no_connections)
next
  case (Some cs)
  note reg = Some
  have out: "c \<notin> set cs" using assms[OF Some] .
  show ?thesis
  proof (cases "map_of (tasks s) j")
    case None
    then show ?thesis using reg by (simp add: notifyStreamingConnections_def getTask_0)
  next
    case (Some t)
    have f1: "filter (\<lambda>x. conn_of x = c)
        (map (\<lambda>c. SendEvent \<lparr>ev_conn = c, ev_type = ty, ev_data = d, ev_final = b\<rparr>) cs) = []"
      for b
      using out by (auto simp add: filter_empty_conv)
    have f2: "filter (\<lambda>x. conn_of x = c) (map Close cs) = []"
      using out by (auto simp add: filter_empty_conv)
    show ?thesis
      using notify_connections[OF reg Some, of ty d] f1 f2
      by (simp add: calls_on_def)
  qed
qed

lemma live_streamed_t1: "live_registry streamed_t1"
proof -
  have l0: "live_registry submitted_t1"
    unfolding submitted_t1_def by (rule live_createTask[OF live_new])
  have e0: "streamingConnections submitted_t1 = Map.empty"
    by (simp add: submitted_t1_def createTask_def new_TaskManager_def Let_def)
  have c1: "calls_on 1 submitted_t1 = []" by code_simp
  have f1: "fresh_conn 1 submitted_t1"
    unfolding fresh_conn_def using c1 e0 by simp
  let ?s1 = "snd (addStreamingConnection ''t1'' 1 submitted_t1)"
  have l1: "live_registry ?s1" by (rule live_addStreamingConnection[OF l0 f1])
  have e1: "streamingConnections ?s1 = [''t1'' \<mapsto> [1]]"
    by (simp add: addStreamingConnection_registry e0)
  have c2: "calls_on 2 ?s1 = []" by code_simp
  have f2: "fresh_conn 2 ?s1"
    unfolding fresh_conn_def using c2 e1 by simp
  show ?thesis
    unfolding streamed_t1_def by (rule live_addStreamingConnection[OF l1 f2])
qed

section \<open>The claims\<close>

subsection \<open>C1: terminal states\<close>

text \<open>
  Claim C1, as stated, fails: \<open>updateTaskStatus\<close> installs any status on a
  terminal task, and the part of \<open>processTask\<close> that applies the skill's
  result has no check of the current status. Here \<^verbatim>\<open>t1\<close> is canceled while its
  skill is running; the result that arrives afterwards makes the stored state
  completed (failed, when the skill rejects).
\<close>

theorem late_result_counterexample:
  "state_of ''t1'' canceled_t1 = Some Canceled
   \<and> state_of ''t1'' (snd (processTask_apply ''t1'' (Inr skill_done) 400 canceled_t1)) =
       Some Completed
   \<and> state_of ''t1'' (snd (processTask_apply ''t1'' (Inl ''timeout'') 400 canceled_t1)) =
       Some Failed
   \<and> state_of ''t1'' (snd (updateTaskStatus ''t1'' working_status canceled_t1)) =
       Some Working"
  by code_simp

text \<open>
  Claim C1, amended. On a stored task whose state is terminal, \<open>cancelTask\<close>
  fails with \<^verbatim>\<open>TASK_NOT_CANCELABLE\<close>, \<open>continueTask\<close> fails with
  \<^verbatim>\<open>INVALID_TASK_STATE\<close> and \<open>createTask\<close> on its id fails, each leaving the
  task manager unchanged, and \<open>addArtifacts\<close> leaves its state as it is.
\<close>

theorem terminal_task_guarded_operations:
  assumes "map_of (tasks s) i = Some t" and "state (status t) \<in> set terminalStates"
  shows "cancelTask i now s =
        (Inl (JsonRpcError TASK_NOT_CANCELABLE ''Task cannot be canceled''), s)
    \<and> continueTask proc cont i userMessage now now2 s =
        (Inl (JsonRpcError INVALID_TASK_STATE ''Task is not waiting for input''), s)
    \<and> createTask i sid msg now s =
        (Inl (JsonRpcError INVALID_PARAMS ''Task with this ID already exists''), s)
    \<and> state_of i (snd (addArtifacts i arts s)) = Some (state (status t))"
proof (intro conjI)
  show "cancelTask i now s =
        (Inl (JsonRpcError TASK_NOT_CANCELABLE ''Task cannot be canceled''), s)"
    using assms by (rule cancelTask_terminal)
  have "state (status t) \<noteq> InputRequired"
    using assms(2) by (auto simp add: terminalStates_def)
  with assms(1) show "continueTask proc cont i userMessage now now2 s =
        (Inl (JsonRpcError INVALID_TASK_STATE ''Task is not waiting for input''), s)"
    by (rule continueTask_not_waiting)
  show "createTask i sid msg now s =
        (Inl (JsonRpcError INVALID_PARAMS ''Task with this ID already exists''), s)"
    using assms(1) by (simp add: createTask_def)
  show "state_of i (snd (addArtifacts i arts s)) = Some (state (status t))"
    using addArtifacts_existing(2)[OF assms(1), of arts]
    by (simp add: state_of_def update_conv' with_artifacts_def)
qed

text \<open>
  Witness for C1: the four operations on the canceled \<^verbatim>\<open>t1\<close>.
\<close>

theorem terminal_task_guarded_operations_witness:
  "map_of (tasks canceled_t1) ''t1'' = Some canceled_task
   \<and> state (status canceled_task) \<in> set terminalStates
   \<and> cancelTask ''t1'' 500 canceled_t1 =
        (Inl (JsonRpcError TASK_NOT_CANCELABLE ''Task cannot be canceled''), canceled_t1)
   \<and> continueTask echo_skill no_continue ''t1'' user_answer 500 600 canceled_t1 =
        (Inl (JsonRpcError INVALID_TASK_STATE ''Task is not waiting for input''), canceled_t1)
   \<and> createTask ''t1'' None (Some user_answer) 500 canceled_t1 =
        (Inl (JsonRpcError INVALID_PARAMS ''Task with this ID already exists''), canceled_t1)
   \<and> state_of ''t1'' (snd (addArtifacts ''t1'' [report] canceled_t1)) = Some Canceled"
proof -
  have h1: "map_of (tasks canceled_t1) ''t1'' = Some canceled_task" by code_simp
  have h2: "state (status canceled_task) \<in> set terminalStates" by code_simp
  have c: "state (status canceled_task) = Canceled" by (simp add: canceled_task_def)
  from terminal_task_guarded_operations[OF h1 h2, of 500 echo_skill no_continue user_answer
      600 None "Some user_answer" "[report]"] h1 h2 c
  show ?thesis by simp
qed

subsection \<open>C2: continueTask without a continue operation\<close>

text \<open>
  Claim C2 at a concrete input. \<^verbatim>\<open>t1\<close> waits for input with the agent's question
  as its status message; its skill, \<^verbatim>\<open>text-analysis\<close>, has no continue
  operation. \<open>continueTask\<close> with the user's answer restarts \<open>processTask\<close>,
  but the answer was appended and assigned on the copy returned by \<open>getTask\<close>:
  the skill (which echoes the message it is triggered by) sees the agent's
  question, and the answer is in neither the stored history nor the status.
  Lemma \<open>continueTask_restart\<close> is the general fact: on this path the call is
  \<open>processTask\<close>, whatever the user's message.
\<close>

theorem continueTask_drops_user_message:
  "state_of ''t1'' waiting_t1 = Some InputRequired
   \<and> fst (continueTask echo_skill no_continue ''t1'' user_answer 400 500 waiting_t1) =
       Inr \<lparr>task_id = ''t1'', sessionId = None,
            status = \<lparr>state = Completed, message = Some agent_question, timestamp = 500\<rparr>,
            artifacts = Some [], history = Some [user_request, agent_question],
            metadata = Some []\<rparr>
   \<and> stored ''t1'' (snd (continueTask echo_skill no_continue ''t1'' user_answer 400 500
                           waiting_t1)) =
       Some \<lparr>task_id = ''t1'', sessionId = None,
             status = \<lparr>state = Completed, message = Some agent_question, timestamp = 500\<rparr>,
             artifacts = Some [], history = Some [user_request, agent_question],
             metadata = Some []\<rparr>"
  by code_simp

subsection \<open>C3: the terminal transition closes every subscription\<close>

text \<open>
  Claim C3. When \<open>updateTaskStatus\<close> installs a terminal status on a task with
  the streaming subscriptions \<open>cs\<close> attached (no connection registered twice),
  the calls it makes on connections are, in this order, one status event tagged
  final to each subscriber in registration order, then one \<^verbatim>\<open>close\<close> of each.
  So the calls made on a subscriber grow by exactly its final event followed by
  its \<^verbatim>\<open>close\<close>; the final events it has received in its whole life grow by
  exactly one, which makes exactly one for a subscriber that had received none.
  The registry entry of the task is removed, and a later publish for the task
  finds no entry and changes nothing. Where the registry holds live
  subscriptions (\<open>live_registry\<close>, an invariant by the lemmas \<open>live_new\<close> to
  \<open>live_handleTasksResubscribe\<close>, under which \<open>live_attached\<close> gives the two
  conditions on \<open>cs\<close> above), it still does after the call, and no later
  publish, for whatever task, makes any call on one of these subscribers.
\<close>

theorem terminal_transition_final_events:
  assumes "map_of (tasks s) i = Some t"
    and "streamingConnections s i = Some cs"
    and "distinct cs"
    and "state newStatus \<in> set terminalStates"
  shows "fst (updateTaskStatus i newStatus s) = Inr (archive t newStatus)
    \<and> calls (snd (updateTaskStatus i newStatus s)) =
        calls s @ map (\<lambda>c. SendEvent (final_status_event c newStatus)) cs @ map Close cs
    \<and> (\<forall>c \<in> set cs.
         calls_on c (snd (updateTaskStatus i newStatus s)) =
           calls_on c s @ [SendEvent (final_status_event c newStatus), Close c]
         \<and> final_events c (snd (updateTaskStatus i newStatus s)) =
             final_events c s @ [final_status_event c newStatus]
         \<and> (final_events c s = [] \<longrightarrow>
              length (final_events c (snd (updateTaskStatus i newStatus s))) = 1)
         \<and> length (filter (\<lambda>e. ev_conn e = c \<and> ev_final e)
                   (drop (length (sent s)) (sent (snd (updateTaskStatus i newStatus s))))) = 1)
    \<and> sent (snd (updateTaskStatus i newStatus s)) =
        sent s @ map (\<lambda>c. \<lparr>ev_conn = c, ev_type = StatusEvent,
                           ev_data = StatusData newStatus, ev_final = True\<rparr>) cs
    \<and> closed (snd (updateTaskStatus i newStatus s)) = closed s @ cs
    \<and> streamingConnections (snd (updateTaskStatus i newStatus s)) i = None
    \<and> (\<forall>ty d. notifyStreamingConnections i ty d (snd (updateTaskStatus i newStatus s)) =
                (Inr (), snd (updateTaskStatus i newStatus s)))
    \<and> (live_registry s \<longrightarrow>
          live_registry (snd (updateTaskStatus i newStatus s))
          \<and> (\<forall>c \<in> set cs. \<forall>j ty d.
                calls_on c (snd (notifyStreamingConnections j ty d
                                  (snd (updateTaskStatus i newStatus s)))) =
                calls_on c (snd (updateTaskStatus i newStatus s))))"
proof -
  let ?s1 = "s\<lparr>tasks := AList.update i (archive t newStatus) (tasks s)\<rparr>"
  let ?s' = "snd (updateTaskStatus i newStatus s)"
  let ?ev = "\<lambda>c. final_status_event c newStatus"
  have st: "status (archive t newStatus) = newStatus"
    by (simp add: archive_def split: option.splits)
  have n: "notifyStreamingConnections i StatusEvent (StatusData newStatus) ?s1 =
      (Inr (), ?s1\<lparr>calls := calls s @ map (\<lambda>c. SendEvent (?ev c)) cs @ map Close cs,
                   streamingConnections := (streamingConnections s)(i := None)\<rparr>)"
    using notify_connections[of ?s1 i cs "archive t newStatus" StatusEvent "StatusData newStatus"]
      assms(2,4) st by (simp add: update_conv' final_status_event_def)
  have u: "fst (updateTaskStatus i newStatus s) = Inr (archive t newStatus)"
    using updateTaskStatus_existing[OF assms(1), of newStatus] by simp
  have calls': "calls ?s' = calls s @ map (\<lambda>c. SendEvent (?ev c)) cs @ map Close cs"
    using updateTaskStatus_existing[OF assms(1), of newStatus] n by (simp add: Let_def)
  have conns': "streamingConnections ?s' i = None"
    using updateTaskStatus_existing[OF assms(1), of newStatus] n by (simp add: Let_def)
  have sent': "sent ?s' = sent s @ map ?ev cs"
    by (simp add: sent_def calls')
  have closed': "closed ?s' = closed s @ cs"
    by (simp add: closed_def calls')
  have on: "calls_on c ?s' = calls_on c s @ [SendEvent (?ev c), Close c]"
    if "c \<in> set cs" for c
  proof -
    have "filter (\<lambda>x. conn_of x = c) (map (\<lambda>c. SendEvent (?ev c)) cs) =
        map (\<lambda>c. SendEvent (?ev c)) (filter (\<lambda>x. x = c) cs)"
      by (simp add: filter_map comp_def final_status_event_def)
    moreover have "filter (\<lambda>x. conn_of x = c) (map Close cs) =
        map Close (filter (\<lambda>x. x = c) cs)"
      by (simp add: filter_map comp_def)
    ultimately show ?thesis
      using filter_only[OF assms(3) that] by (simp add: calls_on_def calls')
  qed
  have fin: "final_events c ?s' = final_events c s @ [?ev c]" if "c \<in> set cs" for c
  proof -
    have "filter (\<lambda>e. ev_conn e = c \<and> ev_final e) (map ?ev cs) =
        map ?ev (filter (\<lambda>x. x = c) cs)"
      by (simp add: filter_map comp_def final_status_event_def)
    then show ?thesis
      using filter_only[OF assms(3) that] by (simp add: final_events_def sent')
  qed
  have count: "length (filter (\<lambda>e. ev_conn e = c \<and> ev_final e)
      (drop (length (sent s)) (sent ?s'))) = 1"
    if "c \<in> set cs" for c
  proof -
    have "filter (\<lambda>e. ev_conn e = c \<and> ev_final e) (map ?ev cs) =
        map ?ev (filter (\<lambda>x. x = c) cs)"
      by (simp add: filter_map comp_def final_status_event_def)
    then show ?thesis
      using filter_only[OF assms(3) that] by (simp add: sent')
  qed
  have one: "final_events c s = [] \<longrightarrow> length (final_events c ?s') = 1"
    if "c \<in> set cs" for c
    using fin[OF that] by simp
  have later: "notifyStreamingConnections i ty d ?s' = (Inr (), ?s')" for ty d
    using conns' by (rule notify_no_connections)
  have sent'': "sent ?s' =
        sent s @ map (\<lambda>c. \<lparr>ev_conn = c, ev_type = StatusEvent,
                           ev_data = StatusData newStatus, ev_final = True\<rparr>) cs"
    using sent' by (simp add: final_status_event_def)
  have regs: "streamingConnections ?s' = (streamingConnections s)(i := None)"
    using updateTaskStatus_existing[OF assms(1), of newStatus] n by (simp add: Let_def)
  have live: "live_registry s \<longrightarrow>
          live_registry ?s'
          \<and> (\<forall>c \<in> set cs. \<forall>j ty d.
                calls_on c (snd (notifyStreamingConnections j ty d ?s')) = calls_on c ?s')"
  proof (intro impI conjI ballI allI)
    assume l: "live_registry s"
    then show "live_registry ?s'" by (rule live_updateTaskStatus)
    fix c j ty d assume c: "c \<in> set cs"
    have only: "\<And>k cs2. streamingConnections s k = Some cs2 \<Longrightarrow> c \<in> set cs2 \<Longrightarrow> k = i"
      using l assms(2) c unfolding live_registry_def by blast
    have "c \<notin> set cs'" if "streamingConnections ?s' j = Some cs'" for cs'
    proof -
      have "j \<noteq> i" "streamingConnections s j = Some cs'"
        using that unfolding regs by (auto split: if_splits)
      then show ?thesis using only by blast
    qed
    then show "calls_on c (snd (notifyStreamingConnections j ty d ?s')) = calls_on c ?s'"
      by (rule notify_elsewhere)
  qed
  from u calls' on fin one count sent'' closed' conns' later live show ?thesis by blast
qed

text \<open>
  Witness for C3: task \<^verbatim>\<open>t1\<close> with the connections 1 and 2 attached is completed.
\<close>

theorem terminal_transition_final_events_witness:
  "map_of (tasks streamed_t1) ''t1'' = Some submitted_task
   \<and> streamingConnections streamed_t1 ''t1'' = Some [1, 2]
   \<and> distinct [1 :: nat, 2]
   \<and> state completed_status \<in> set terminalStates
   \<and> calls (snd (updateTaskStatus ''t1'' completed_status streamed_t1)) =
       calls streamed_t1 @
       [SendEvent (final_status_event 1 completed_status),
        SendEvent (final_status_event 2 completed_status), Close 1, Close 2]
   \<and> calls_on 1 (snd (updateTaskStatus ''t1'' completed_status streamed_t1)) =
       calls_on 1 streamed_t1 @ [SendEvent (final_status_event 1 completed_status), Close 1]
   \<and> calls_on 2 (snd (updateTaskStatus ''t1'' completed_status streamed_t1)) =
       calls_on 2 streamed_t1 @ [SendEvent (final_status_event 2 completed_status), Close 2]
   \<and> final_events 1 streamed_t1 = []
   \<and> final_events 2 streamed_t1 = []
   \<and> length (final_events 1 (snd (updateTaskStatus ''t1'' completed_status streamed_t1))) = 1
   \<and> length (final_events 2 (snd (updateTaskStatus ''t1'' completed_status streamed_t1))) = 1
   \<and> length (filter (\<lambda>e. ev_conn e = 1 \<and> ev_final e)
        (drop (length (sent streamed_t1))
           (sent (snd (updateTaskStatus ''t1'' completed_status streamed_t1))))) = 1
   \<and> length (filter (\<lambda>e. ev_conn e = 2 \<and> ev_final e)
        (drop (length (sent streamed_t1))
           (sent (snd (updateTaskStatus ''t1'' completed_status streamed_t1))))) = 1
   \<and> closed (snd (updateTaskStatus ''t1'' completed_status streamed_t1)) =
       closed streamed_t1 @ [1, 2]
   \<and> streamingConnections (snd (updateTaskStatus ''t1'' completed_status streamed_t1)) ''t1'' =
       None
   \<and> notifyStreamingConnections ''t1'' ArtifactEvent (ArtifactData report)
        (snd (updateTaskStatus ''t1'' completed_status streamed_t1)) =
       (Inr (), snd (updateTaskStatus ''t1'' completed_status streamed_t1))
   \<and> live_registry streamed_t1
   \<and> live_registry (snd (updateTaskStatus ''t1'' completed_status streamed_t1))
   \<and> calls_on 1 (snd (notifyStreamingConnections ''t2'' StatusEvent
                          (StatusData working_status)
                          (snd (updateTaskStatus ''t1'' completed_status streamed_t1)))) =
       calls_on 1 (snd (updateTaskStatus ''t1'' completed_status streamed_t1))"
proof -
  have h1: "map_of (tasks streamed_t1) ''t1'' = Some submitted_task" by code_simp
  have h2: "streamingConnections streamed_t1 ''t1'' = Some [1, 2]" by code_simp
  have h3: "distinct [1 :: nat, 2]" by simp
  have h4: "state completed_status \<in> set terminalStates" by code_simp
  have f1: "final_events 1 streamed_t1 = []" by code_simp
  have f2: "final_events 2 streamed_t1 = []" by code_simp
  note l = live_streamed_t1
  from terminal_transition_final_events[OF h1 h2 h3 h4] h1 h2 h3 h4 f1 f2 l
  show ?thesis by simp
qed

subsection \<open>C4: the history is the list of prior status messages\<close>

text \<open>
  Claim C4, as stated, fails in its last part: the message of the current
  status is present in the history when an earlier status carried the same
  message. Here \<^verbatim>\<open>t1\<close>, created with the user's request, gets a working
  status that carries that request again.
\<close>

theorem history_counterexample:
  "stored ''t1'' (snd (updateTaskStatus ''t1'' (createTaskStatus Working (Some user_request) 200)
        submitted_t1)) =
     Some \<lparr>task_id = ''t1'', sessionId = None,
           status = \<lparr>state = Working, message = Some user_request, timestamp = 200\<rparr>,
           artifacts = Some [], history = Some [user_request], metadata = Some []\<rparr>"
  by code_simp

text \<open>
  Claim C4, amended. After \<open>createTask\<close> and any sequence of
  \<open>updateTaskStatus\<close> calls on the task, the history (absent read as empty)
  is exactly the list of the non-null messages of the prior statuses, oldest
  first, so its length is the number of prior statuses that carried a message;
  the current status is the last one installed, and its message is not
  appended by the call that installs it.
\<close>

theorem history_is_prior_status_messages:
  assumes "map_of (tasks s) i = None"
  shows "\<exists>t. map_of (tasks (updateStatus_calls i sts (snd (createTask i sid msg now s)))) i = Some t
    \<and> status t = last (createTaskStatus Submitted msg now # sts)
    \<and> history_list t = status_messages (butlast (createTaskStatus Submitted msg now # sts))
    \<and> length (history_list t) =
        length (filter (\<lambda>st. message st \<noteq> None)
                  (butlast (createTaskStatus Submitted msg now # sts)))"
proof -
  let ?t0 = "types_createTask i (createTaskStatus Submitted msg now) sid (Some []) None (Some [])"
  have "map_of (tasks (snd (createTask i sid msg now s))) i = Some ?t0"
    using assms by (simp add: createTask_def Let_def update_conv' split: option.splits)
  then have "map_of (tasks (updateStatus_calls i sts (snd (createTask i sid msg now s)))) i =
      Some (foldl archive ?t0 sts)"
    by (rule updateStatus_calls_stored)
  moreover have "status ?t0 = createTaskStatus Submitted msg now" "history_list ?t0 = []"
    by (simp_all add: types_createTask_def history_list_def)
  ultimately show ?thesis
    using foldl_archive[of ?t0 sts] by (simp add: status_messages_length)
qed

text \<open>
  Witness for C4: \<^verbatim>\<open>t1\<close> goes through working (no message) to completed.
\<close>

theorem history_is_prior_status_messages_witness:
  "map_of (tasks new_TaskManager) ''t1'' = None
   \<and> map_option history_list
        (map_of (tasks (updateStatus_calls ''t1'' [working_status, completed_status]
                   (snd (createTask ''t1'' None (Some user_request) 100 new_TaskManager))))
           ''t1'') = Some [user_request]
   \<and> map_option status
        (map_of (tasks (updateStatus_calls ''t1'' [working_status, completed_status]
                   (snd (createTask ''t1'' None (Some user_request) 100 new_TaskManager))))
           ''t1'') = Some completed_status"
proof -
  have h: "map_of (tasks new_TaskManager) ''t1'' = None" by code_simp
  have e: "status_messages (butlast (createTaskStatus Submitted (Some user_request) 100
              # [working_status, completed_status])) = [user_request]"
    by code_simp
  from history_is_prior_status_messages[OF h, of "[working_status, completed_status]"
      None "Some user_request" 100] e h
  show ?thesis by auto
qed

subsection \<open>C5: createTask on a registered and on a fresh id\<close>

text \<open>
  Claim C5, as stated, fails in the error it names: for a registered id
  \<open>createTask\<close> throws an error with the code \<^verbatim>\<open>INVALID_PARAMS\<close> (-32602), the
  one used for malformed parameters; there is no code for \<open>AlreadyExists\<close>.
\<close>

theorem createTask_duplicate_counterexample:
  "fst (createTask ''t1'' None (Some user_answer) 200 submitted_t1) =
     Inl (JsonRpcError (- 32602) ''Task with this ID already exists'')
   \<and> error_kind_of (JsonRpcError (- 32602) ''Task with this ID already exists'') =
       Some InvalidParams
   \<and> error_kind_of (JsonRpcError (- 32602) ''Task with this ID already exists'') \<noteq>
       Some AlreadyExists"
  by code_simp

text \<open>
  Claim C5, amended. For a registered id \<open>createTask\<close> fails with the
  \<^verbatim>\<open>INVALID_PARAMS\<close> error whose message is \<^verbatim>\<open>Task with this ID already exists\<close>
  and leaves the task manager, hence the existing task, unchanged; for a fresh
  id it succeeds and stores the returned task, whose status is submitted and
  carries the initial message.
\<close>

theorem createTask_duplicate_or_fresh:
  "(map_of (tasks s) i \<noteq> None \<longrightarrow>
      createTask i sid msg now s =
        (Inl (JsonRpcError INVALID_PARAMS ''Task with this ID already exists''), s))
   \<and> (map_of (tasks s) i = None \<longrightarrow>
      (\<exists>t. fst (createTask i sid msg now s) = Inr t
         \<and> map_of (tasks (snd (createTask i sid msg now s))) = (map_of (tasks s))(i \<mapsto> t)
         \<and> status t = \<lparr>state = Submitted, message = msg, timestamp = now\<rparr>))"
  by (simp add: createTask_def Let_def update_conv' createTaskStatus_def types_createTask_def
      split: option.splits)

text \<open>
  Witness for C5: \<^verbatim>\<open>t1\<close> created twice, and created in the empty task manager.
\<close>

theorem createTask_duplicate_or_fresh_witness:
  "map_of (tasks submitted_t1) ''t1'' \<noteq> None
   \<and> createTask ''t1'' None (Some user_answer) 200 submitted_t1 =
       (Inl (JsonRpcError INVALID_PARAMS ''Task with this ID already exists''), submitted_t1)
   \<and> map_of (tasks new_TaskManager) ''t1'' = None
   \<and> map_option status
        (map_of (tasks (snd (createTask ''t1'' None (Some user_request) 100 new_TaskManager)))
           ''t1'') =
       Some \<lparr>state = Submitted, message = Some user_request, timestamp = 100\<rparr>"
proof -
  have h1: "map_of (tasks submitted_t1) ''t1'' \<noteq> None" by code_simp
  have h2: "map_of (tasks new_TaskManager) ''t1'' = None" by code_simp
  from createTask_duplicate_or_fresh[of submitted_t1 "''t1''" None "Some user_answer" 200]
    createTask_duplicate_or_fresh[of new_TaskManager "''t1''" None "Some user_request" 100]
    h1 h2
  show ?thesis by auto
qed

subsection \<open>C6: cancelTask\<close>

text \<open>
  Claim C6. For a stored task in state completed, failed or canceled,
  \<open>cancelTask\<close> fails with \<^verbatim>\<open>TASK_NOT_CANCELABLE\<close> and the task manager is
  unchanged; in any other state it succeeds and the stored task, which it
  returns, has the status canceled with the synthesized cancellation message.
\<close>

theorem cancelTask_terminal_or_not:
  assumes "map_of (tasks s) i = Some t"
  shows "(state (status t) \<in> {Completed, Failed, Canceled} \<longrightarrow>
            cancelTask i now s =
              (Inl (JsonRpcError TASK_NOT_CANCELABLE ''Task cannot be canceled''), s))
     \<and> (state (status t) \<notin> {Completed, Failed, Canceled} \<longrightarrow>
          (\<exists>t'. fst (cancelTask i now s) = Inr t'
             \<and> map_of (tasks (snd (cancelTask i now s))) i = Some t'
             \<and> status t' =
                 \<lparr>state = Canceled,
                  message = Some \<lparr>role = Agent,
                                  parts = [TextPart ''Task canceled by user request'']\<rparr>,
                  timestamp = now\<rparr>))"
proof (intro conjI impI)
  assume "state (status t) \<in> {Completed, Failed, Canceled}"
  then have "state (status t) \<in> set terminalStates" by (auto simp: terminalStates_def)
  with assms show "cancelTask i now s =
      (Inl (JsonRpcError TASK_NOT_CANCELABLE ''Task cannot be canceled''), s)"
    by (rule cancelTask_terminal)
next
  let ?st = "createTaskStatus Canceled
            (Some (createMessage Agent [createTextPart ''Task canceled by user request''])) now"
  assume "state (status t) \<notin> {Completed, Failed, Canceled}"
  then have "state (status t) \<notin> set terminalStates" by (auto simp: terminalStates_def)
  with assms have c: "cancelTask i now s = (Inr (archive t ?st), snd (updateTaskStatus i ?st s))"
    by (rule cancelTask_nonterminal)
  have "map_of (tasks (snd (updateTaskStatus i ?st s))) i = Some (archive t ?st)"
    using updateTaskStatus_lookup[OF assms, of ?st] by simp
  moreover have "status (archive t ?st) =
      \<lparr>state = Canceled,
       message = Some \<lparr>role = Agent, parts = [TextPart ''Task canceled by user request'']\<rparr>,
       timestamp = now\<rparr>"
    by (simp add: createTaskStatus_def createMessage_def createTextPart_def)
  ultimately show "\<exists>t'. fst (cancelTask i now s) = Inr t'
             \<and> map_of (tasks (snd (cancelTask i now s))) i = Some t'
             \<and> status t' =
                 \<lparr>state = Canceled,
                  message = Some \<lparr>role = Agent,
                                  parts = [TextPart ''Task canceled by user request'']\<rparr>,
                  timestamp = now\<rparr>"
    using c by simp
qed

text \<open>
  Witness for C6: canceling the canceled \<^verbatim>\<open>t1\<close> and the submitted \<^verbatim>\<open>t1\<close>.
\<close>

theorem cancelTask_terminal_or_not_witness:
  "map_of (tasks canceled_t1) ''t1'' = Some canceled_task
   \<and> state (status canceled_task) \<in> {Completed, Failed, Canceled}
   \<and> cancelTask ''t1'' 500 canceled_t1 =
       (Inl (JsonRpcError TASK_NOT_CANCELABLE ''Task cannot be canceled''), canceled_t1)
   \<and> map_of (tasks submitted_t1) ''t1'' = Some submitted_task
   \<and> state (status submitted_task) \<notin> {Completed, Failed, Canceled}
   \<and> map_option status (map_of (tasks (snd (cancelTask ''t1'' 500 submitted_t1))) ''t1'') =
       Some \<lparr>state = Canceled,
             message = Some \<lparr>role = Agent,
                             parts = [TextPart ''Task canceled by user request'']\<rparr>,
             timestamp = 500\<rparr>"
proof -
  have h1: "map_of (tasks canceled_t1) ''t1'' = Some canceled_task" by code_simp
  have h2: "state (status canceled_task) \<in> {Completed, Failed, Canceled}"
    by (simp add: canceled_task_def)
  have h3: "map_of (tasks submitted_t1) ''t1'' = Some submitted_task" by code_simp
  have h4: "state (status submitted_task) \<notin> {Completed, Failed, Canceled}"
    by (simp add: submitted_task_def)
  from cancelTask_terminal_or_not[OF h1, of 500] cancelTask_terminal_or_not[OF h3, of 500]
    h1 h2 h3 h4
  show ?thesis by auto
qed

subsection \<open>C7: the maintenance sweep\<close>

text \<open>
  Claim C7. In a task map (its keys are distinct, as in any \<^verbatim>\<open>Map\<close>),
  \<open>cleanupExpiredTasks\<close> removes exactly the tasks whose status timestamp is
  older than \<open>maxAge\<close> and whose state is terminal, and drops the push config
  of each removed task; every other task, in particular every non-terminal one
  whatever its age, stays as it is, and so does its push config.
\<close>

theorem cleanupExpiredTasks_exact:
  assumes "distinct (map fst (tasks s))"
  shows "map_of (tasks (cleanupExpiredTasks maxAge now s)) i =
      (case map_of (tasks s) i of
         None \<Rightarrow> None
       | Some t \<Rightarrow>
           if maxAge < now - timestamp (status t)
              \<and> state (status t) \<in> {Completed, Failed, Canceled}
           then None else Some t)
    \<and> pushNotificationConfigs (cleanupExpiredTasks maxAge now s) i =
      (case map_of (tasks s) i of
         None \<Rightarrow> pushNotificationConfigs s i
       | Some t \<Rightarrow>
           if maxAge < now - timestamp (status t)
              \<and> state (status t) \<in> {Completed, Failed, Canceled}
           then None else pushNotificationConfigs s i)"
  unfolding cleanup_lookup[OF assms] cleanup_configs[OF assms] expired_def
  by (simp split: option.splits)

text \<open>
  Witness for C7: at time 1000 with \<open>maxAge = 500\<close>, the old completed task
  \<^verbatim>\<open>a\<close> and its push config go, the old submitted \<^verbatim>\<open>b\<close> and the recent failed
  \<^verbatim>\<open>c\<close> stay.
\<close>

theorem cleanupExpiredTasks_exact_witness:
  "distinct (map fst (tasks three_tasks))
   \<and> map_of (tasks (cleanupExpiredTasks 500 1000 three_tasks)) ''a'' = None
   \<and> pushNotificationConfigs (cleanupExpiredTasks 500 1000 three_tasks) ''a'' = None
   \<and> pushNotificationConfigs three_tasks ''a'' = Some hook
   \<and> map_option (\<lambda>t. state (status t))
        (map_of (tasks (cleanupExpiredTasks 500 1000 three_tasks)) ''b'') = Some Submitted
   \<and> map_option (\<lambda>t. state (status t))
        (map_of (tasks (cleanupExpiredTasks 500 1000 three_tasks)) ''c'') = Some Failed"
proof -
  have d: "distinct (map fst (tasks three_tasks))" by code_simp
  have "map_option (\<lambda>t. (timestamp (status t), state (status t)))
          (map_of (tasks three_tasks) ''a'') = Some (50, Completed)" by code_simp
  then obtain ta where a: "map_of (tasks three_tasks) ''a'' = Some ta"
    "timestamp (status ta) = 50" "state (status ta) = Completed" by auto
  have "map_option (\<lambda>t. (timestamp (status t), state (status t)))
          (map_of (tasks three_tasks) ''b'') = Some (10, Submitted)" by code_simp
  then obtain tb where b: "map_of (tasks three_tasks) ''b'' = Some tb"
    "timestamp (status tb) = 10" "state (status tb) = Submitted" by auto
  have "map_option (\<lambda>t. (timestamp (status t), state (status t)))
          (map_of (tasks three_tasks) ''c'') = Some (900, Failed)" by code_simp
  then obtain tc where c: "map_of (tasks three_tasks) ''c'' = Some tc"
    "timestamp (status tc) = 900" "state (status tc) = Failed" by auto
  have p: "pushNotificationConfigs three_tasks ''a'' = Some hook" by code_simp
  have ra: "map_of (tasks (cleanupExpiredTasks 500 1000 three_tasks)) ''a'' = None
     \<and> pushNotificationConfigs (cleanupExpiredTasks 500 1000 three_tasks) ''a'' = None"
    using cleanupExpiredTasks_exact[OF d, of 500 1000 "''a''"] by (simp add: a)
  have rb: "map_of (tasks (cleanupExpiredTasks 500 1000 three_tasks)) ''b'' = Some tb"
    using cleanupExpiredTasks_exact[OF d, of 500 1000 "''b''"] by (simp add: b)
  have rc: "map_of (tasks (cleanupExpiredTasks 500 1000 three_tasks)) ''c'' = Some tc"
    using cleanupExpiredTasks_exact[OF d, of 500 1000 "''c''"] by (simp add: c)
  show ?thesis using d p ra rb rc b(3) c(3) by simp
qed

subsection \<open>C8: a successful skill run completes the task\<close>

text \<open>
  Claim C8. When the skill resolved for a stored task is registered and its
  \<^verbatim>\<open>process\<close> call on the task copy resolves, \<open>processTask\<close> returns the stored
  task with the status completed carrying the result's message, never
  input-required, and with the metadata it had: the skill works on a copy and
  the result object is all that reaches the task manager. The same holds for
  the result-application step in whatever state it resumes, as long as the task
  is still stored.
\<close>

theorem processTask_success_completed:
  assumes "map_of (tasks s) i = Some t" and "determineSkill t = Some k"
    and "k \<in> set skill_ids" and "proc k t = Inr result"
  shows "(\<exists>r. fst (processTask proc i now1 now2 s) = Inr r
      \<and> map_of (tasks (snd (processTask proc i now1 now2 s))) i = Some r
      \<and> status r = \<lparr>state = Completed, message = res_message result, timestamp = now2\<rparr>
      \<and> state (status r) \<noteq> InputRequired
      \<and> metadata r = metadata t)
    \<and> (\<forall>s'. map_of (tasks s') i \<noteq> None \<longrightarrow>
          state_of i (snd (processTask_apply i (proc k t) now2 s')) = Some Completed)"
proof
  let ?w = "createTaskStatus Working None now1"
  let ?s1 = "snd (updateTaskStatus i ?w s)"
  have st: "processTask_start i now1 s = (Inr (k, t), ?s1)"
    using assms(1-3) by (rule processTask_start_ok)
  have l1: "map_of (tasks ?s1) i = Some (archive t ?w)"
    using updateTaskStatus_lookup[OF assms(1), of ?w] by simp
  have p: "processTask proc i now1 now2 s = processTask_apply i (Inr result) now2 ?s1"
    by (simp add: processTask_def st skill_process_call_def assms(3,4))
  from processTask_apply_ok[OF l1, of result now2]
  show "\<exists>r. fst (processTask proc i now1 now2 s) = Inr r
      \<and> map_of (tasks (snd (processTask proc i now1 now2 s))) i = Some r
      \<and> status r = \<lparr>state = Completed, message = res_message result, timestamp = now2\<rparr>
      \<and> state (status r) \<noteq> InputRequired
      \<and> metadata r = metadata t"
    unfolding p by (intro exI[of _ "applied (archive t ?w) result now2"]) simp
next
  show "\<forall>s'. map_of (tasks s') i \<noteq> None \<longrightarrow>
          state_of i (snd (processTask_apply i (proc k t) now2 s')) = Some Completed"
  proof (intro allI impI)
    fix s' :: task_manager
    assume "map_of (tasks s') i \<noteq> None"
    then obtain t' where t': "map_of (tasks s') i = Some t'" by auto
    from processTask_apply_ok[OF t', of result now2]
    show "state_of i (snd (processTask_apply i (proc k t) now2 s')) = Some Completed"
      by (simp add: state_of_def assms(4))
  qed
qed

text \<open>
  Witness for C8: a skill that answers with a question to the user; also
  applied after \<^verbatim>\<open>t1\<close> was canceled.
\<close>

theorem processTask_success_completed_witness:
  "map_of (tasks submitted_t1) ''t1'' = Some submitted_task
   \<and> determineSkill submitted_task = Some ''text-analysis''
   \<and> ''text-analysis'' \<in> set skill_ids
   \<and> asking_skill ''text-analysis'' submitted_task =
        Inr \<lparr>res_message = Some agent_question, res_artifacts = Some []\<rparr>
   \<and> map_option status
        (map_of (tasks (snd (processTask asking_skill ''t1'' 200 400 submitted_t1))) ''t1'') =
        Some \<lparr>state = Completed, message = Some agent_question, timestamp = 400\<rparr>
   \<and> map_of (tasks canceled_t1) ''t1'' \<noteq> None
   \<and> state_of ''t1''
        (snd (processTask_apply ''t1'' (asking_skill ''text-analysis'' submitted_task) 400
                canceled_t1)) = Some Completed"
proof -
  have h1: "map_of (tasks submitted_t1) ''t1'' = Some submitted_task" by code_simp
  have h2: "determineSkill submitted_task = Some ''text-analysis''" by code_simp
  have h3: "''text-analysis'' \<in> set skill_ids" by code_simp
  have h4: "asking_skill ''text-analysis'' submitted_task =
        Inr \<lparr>res_message = Some agent_question, res_artifacts = Some []\<rparr>"
    by (simp add: asking_skill_def)
  have h5: "map_of (tasks canceled_t1) ''t1'' \<noteq> None" by code_simp
  from processTask_success_completed[where proc = asking_skill and k = "''text-analysis''"
      and ?now1.0 = 200 and ?now2.0 = 400, OF h1 h2 h3 h4] h1 h2 h3 h4 h5
  show ?thesis by auto
qed

subsection \<open>C9: attaching a subscription\<close>

text \<open>
  Claim C9. For a stored task, in particular one in a terminal state,
  \<open>addStreamingConnection\<close> sends the new connection the current status and
  then every stored artifact, each tagged not final, registers the connection
  at the end of the task's list, and closes nothing; \<^verbatim>\<open>tasks/resubscribe\<close> on
  the task is this call. The calls it makes on connections are exactly these
  \<^verbatim>\<open>sendEvent\<close> calls, in this order.
\<close>

theorem addStreamingConnection_replay:
  assumes "map_of (tasks s) i = Some t"
  shows "fst (addStreamingConnection i c s) = Inr ()
    \<and> sent (snd (addStreamingConnection i c s)) =
        sent s @
        \<lparr>ev_conn = c, ev_type = StatusEvent, ev_data = StatusData (status t),
          ev_final = False\<rparr> #
        map (\<lambda>a. \<lparr>ev_conn = c, ev_type = ArtifactEvent, ev_data = ArtifactData a,
                   ev_final = False\<rparr>)
          (case artifacts t of None \<Rightarrow> [] | Some arts \<Rightarrow> arts)
    \<and> closed (snd (addStreamingConnection i c s)) = closed s
    \<and> streamingConnections (snd (addStreamingConnection i c s)) i =
        Some ((case streamingConnections s i of None \<Rightarrow> [] | Some l \<Rightarrow> l) @ [c])
    \<and> tasks (snd (addStreamingConnection i c s)) = tasks s
    \<and> (i \<noteq> [] \<longrightarrow> handleTasksResubscribe i c s = addStreamingConnection i c s)
    \<and> calls (snd (addStreamingConnection i c s)) =
        calls s @
        SendEvent \<lparr>ev_conn = c, ev_type = StatusEvent, ev_data = StatusData (status t),
          ev_final = False\<rparr> #
        map (\<lambda>a. SendEvent \<lparr>ev_conn = c, ev_type = ArtifactEvent,
                   ev_data = ArtifactData a, ev_final = False\<rparr>)
          (case artifacts t of None \<Rightarrow> [] | Some arts \<Rightarrow> arts)"
proof -
  let ?st = "\<lparr>ev_conn = c, ev_type = StatusEvent, ev_data = StatusData (status t),
          ev_final = False\<rparr>"
  let ?art = "\<lambda>a. \<lparr>ev_conn = c, ev_type = ArtifactEvent, ev_data = ArtifactData a,
                   ev_final = False\<rparr>"
  let ?arts = "case artifacts t of None \<Rightarrow> [] | Some arts \<Rightarrow> arts"
  have r: "i \<noteq> [] \<longrightarrow> handleTasksResubscribe i c s = addStreamingConnection i c s"
    using assms by (simp add: handleTasksResubscribe_def getTask_0)
  have f: "fst (addStreamingConnection i c s) = Inr ()"
    using assms by (simp add: addStreamingConnection_def Let_def getTask_0)
  have k: "calls (snd (addStreamingConnection i c s)) =
      calls s @ SendEvent ?st # map (\<lambda>a. SendEvent (?art a)) ?arts"
    using assms
    by (simp add: addStreamingConnection_def Let_def getTask_0 foldl_sendArtifact
        split: option.splits) (simp add: sendEvent_def)
  have g: "streamingConnections (snd (addStreamingConnection i c s)) i =
        Some ((case streamingConnections s i of None \<Rightarrow> [] | Some l \<Rightarrow> l) @ [c])"
    using assms
    by (simp add: addStreamingConnection_def Let_def getTask_0 foldl_sendArtifact
        split: option.splits) (simp add: sendEvent_def)
  have t: "tasks (snd (addStreamingConnection i c s)) = tasks s"
    using assms
    by (simp add: addStreamingConnection_def Let_def getTask_0 foldl_sendArtifact
        split: option.splits) (simp add: sendEvent_def)
  have se: "sent (snd (addStreamingConnection i c s)) = sent s @ ?st # map ?art ?arts"
    by (simp add: sent_def k)
  have cl: "closed (snd (addStreamingConnection i c s)) = closed s"
    by (simp add: closed_def k)
  from f se cl g t r k show ?thesis by blast
qed

text \<open>
  Witness for C9: connection 7 attached to the completed \<^verbatim>\<open>t1\<close>.
\<close>

theorem addStreamingConnection_replay_witness:
  "map_of (tasks completed_t1) ''t1'' = Some completed_task
   \<and> state (status completed_task) \<in> set terminalStates
   \<and> sent (snd (addStreamingConnection ''t1'' 7 completed_t1)) =
       sent completed_t1 @
       [\<lparr>ev_conn = 7, ev_type = StatusEvent, ev_data = StatusData (status completed_task),
          ev_final = False\<rparr>,
        \<lparr>ev_conn = 7, ev_type = ArtifactEvent, ev_data = ArtifactData report,
          ev_final = False\<rparr>]
   \<and> closed (snd (addStreamingConnection ''t1'' 7 completed_t1)) = closed completed_t1
   \<and> streamingConnections (snd (addStreamingConnection ''t1'' 7 completed_t1)) ''t1'' =
       Some [7]
   \<and> handleTasksResubscribe ''t1'' 7 completed_t1 =
       addStreamingConnection ''t1'' 7 completed_t1"
proof -
  have h: "map_of (tasks completed_t1) ''t1'' = Some completed_task" by code_simp
  have t: "state (status completed_task) \<in> set terminalStates" by code_simp
  have a: "artifacts completed_task = Some [report]" by (simp add: completed_task_def)
  have n: "streamingConnections completed_t1 ''t1'' = None" by code_simp
  from addStreamingConnection_replay[OF h, of 7] h t a n
  show ?thesis by simp
qed

subsection \<open>C10: push-notification configs\<close>

text \<open>
  Claim C10. For an id that is not in the task map, \<open>setPushNotificationConfig\<close>
  and \<open>getPushNotificationConfig\<close> fail with \<^verbatim>\<open>TASK_NOT_FOUND\<close> and leave the
  task manager unchanged; for a stored task, setting a \<^verbatim>\<open>null\<close> config deletes
  the stored one, and getting returns \<^verbatim>\<open>null\<close> when none is stored.
\<close>

theorem pushNotificationConfig_missing_or_existing:
  "(map_of (tasks s) i = None \<longrightarrow>
      setPushNotificationConfig i config s =
        (Inl (JsonRpcError TASK_NOT_FOUND ''Task not found''), s)
      \<and> getPushNotificationConfig i s =
        (Inl (JsonRpcError TASK_NOT_FOUND ''Task not found''), s))
   \<and> (map_of (tasks s) i \<noteq> None \<longrightarrow>
      fst (setPushNotificationConfig i None s) = Inr (i, None)
      \<and> pushNotificationConfigs (snd (setPushNotificationConfig i None s)) =
          (pushNotificationConfigs s)(i := None)
      \<and> fst (getPushNotificationConfig i (snd (setPushNotificationConfig i None s))) =
          Inr (i, None)
      \<and> (pushNotificationConfigs s i = None \<longrightarrow>
            getPushNotificationConfig i s = (Inr (i, None), s)))"
  by (auto simp add: setPushNotificationConfig_def getPushNotificationConfig_def getTask_0
      not_found_def split: option.splits)

text \<open>
  Witness for C10: the missing \<^verbatim>\<open>t2\<close>, task \<^verbatim>\<open>a\<close> with its webhook, and
  \<^verbatim>\<open>t1\<close> without one.
\<close>

theorem pushNotificationConfig_missing_or_existing_witness:
  "map_of (tasks submitted_t1) ''t2'' = None
   \<and> setPushNotificationConfig ''t2'' (Some hook) submitted_t1 =
        (Inl (JsonRpcError TASK_NOT_FOUND ''Task not found''), submitted_t1)
   \<and> getPushNotificationConfig ''t2'' submitted_t1 =
        (Inl (JsonRpcError TASK_NOT_FOUND ''Task not found''), submitted_t1)
   \<and> map_of (tasks three_tasks) ''a'' \<noteq> None
   \<and> pushNotificationConfigs three_tasks ''a'' = Some hook
   \<and> pushNotificationConfigs (snd (setPushNotificationConfig ''a'' None three_tasks)) ''a'' =
        None
   \<and> fst (getPushNotificationConfig ''a''
             (snd (setPushNotificationConfig ''a'' None three_tasks))) = Inr (''a'', None)
   \<and> map_of (tasks submitted_t1) ''t1'' \<noteq> None
   \<and> pushNotificationConfigs submitted_t1 ''t1'' = None
   \<and> getPushNotificationConfig ''t1'' submitted_t1 = (Inr (''t1'', None), submitted_t1)"
proof -
  have h1: "map_of (tasks submitted_t1) ''t2'' = None" by code_simp
  have h2: "map_of (tasks three_tasks) ''a'' \<noteq> None" by code_simp
  have h3: "pushNotificationConfigs three_tasks ''a'' = Some hook" by code_simp
  have h4: "map_of (tasks submitted_t1) ''t1'' \<noteq> None" by code_simp
  have h5: "pushNotificationConfigs submitted_t1 ''t1'' = None" by code_simp
  from pushNotificationConfig_missing_or_existing[of submitted_t1 "''t2''" "Some hook"]
    pushNotificationConfig_missing_or_existing[of three_tasks "''a''"]
    pushNotificationConfig_missing_or_existing[of submitted_t1 "''t1''"]
    h1 h2 h3 h4 h5
  show ?thesis by simp
qed

end
